theory Spec2Isabelle
  imports Complex_Main "HOL-Library.Multiset" "HOL-Library.Log_Nat"
begin

unbundle bit_operations_syntax

section \<open>The snake game of \<^verbatim>\<open>src/main.js\<close>\<close>

text \<open>
  The game keeps its state in global variables and is driven by three kinds of browser
  callbacks: button clicks, key presses and animation frames. The model threads one record
  of the globals through every function, writes the browser's side of the conversation
  (score text, redraws, the alert, frame requests) into a trace of effects, and takes the
  results of \<^verbatim>\<open>Math.random()\<close> from a sequence that is part of the state.

  Numbers: cell coordinates and scores are integers well below \<open>2^53\<close>, so JavaScript's doubles
  behave on them as \<^typ>\<open>int\<close>. Timestamps and random samples are doubles with a fractional
  part. A double is modelled as the \<^typ>\<open>real\<close> it denotes, and each floating-point operation
  whose exact result need not be a double (the product in \<^verbatim>\<open>random\<close>, the difference and the
  quotient in \<^verbatim>\<open>loop\<close>) is the exact operation followed by IEEE 754 rounding to the nearest
  double, ties to even. The magnitudes that occur (milliseconds since the page was loaded,
  products below 30) are far from \<open>2^1024\<close>, so overflow to \<^verbatim>\<open>Infinity\<close> is left out.
\<close>

subsection \<open>Global constants\<close>

definition rows :: int where "rows = 30"
definition cols :: int where "cols = 30"

definition snakeHeadColor :: string where "snakeHeadColor = ''orange''"
definition snakeBodyColor :: string where "snakeBodyColor = ''green''"
definition foodColor :: string where "foodColor = ''red''"

text \<open>
  The four direction constants \<^verbatim>\<open>kUp = 0\<close>, \<^verbatim>\<open>kDown = 1\<close>, \<^verbatim>\<open>kLeft = 2\<close>,
  \<^verbatim>\<open>kRight = 3\<close> are the only values a direction ever takes (the constructor call in
  \<^verbatim>\<open>resetGame\<close> and the four cases of the key handler). They form an enumeration;
  \<open>dirCode\<close> gives the number the program computes with, \<open>dirOf\<close> reads a number back.
\<close>

datatype direction = kUp | kDown | kLeft | kRight

fun dirCode :: "direction \<Rightarrow> nat" where
  "dirCode kUp = 0"
| "dirCode kDown = 1"
| "dirCode kLeft = 2"
| "dirCode kRight = 3"

definition dirOf :: "nat \<Rightarrow> direction" where
  "dirOf n = (if n = 0 then kUp else if n = 1 then kDown else if n = 2 then kLeft else kRight)"

definition kDx :: "int list" where "kDx = [0, 0, -1, 1]"
definition kDy :: "int list" where "kDy = [-1, 1, 0, 0]"

subsection \<open>Helper functions\<close>

text \<open>
  Rounding a real to binary64. \<open>exponent x\<close> is \<open>\<lfloor>log\<^sub>2 \<bar>x\<bar>\<rfloor>\<close> for \<open>x \<noteq> 0\<close>, computed on the
  integer part of \<open>\<bar>x\<bar>\<close> or of its reciprocal. \<open>ulp x\<close> is the distance between neighbouring
  doubles around \<open>x\<close>: 52 fraction bits below the exponent, with the exponent held at
  \<open>-1022\<close> for subnormal numbers. \<open>roundDouble x\<close> is the multiple of \<open>ulp x\<close> nearest to \<open>x\<close>,
  the even multiple when two are equally near.
\<close>

definition roundHalfEven :: "real \<Rightarrow> int" where
  "roundHalfEven y =
     (let n = \<lfloor>y\<rfloor>; f = y - of_int n
      in if f < 1 / 2 then n else if 1 / 2 < f then n + 1 else if even n then n else n + 1)"

definition exponent :: "real \<Rightarrow> int" where
  "exponent x = (if 1 \<le> \<bar>x\<bar> then bitlen \<lfloor>\<bar>x\<bar>\<rfloor> - 1 else - bitlen (\<lceil>1 / \<bar>x\<bar>\<rceil> - 1))"

definition ulp :: "real \<Rightarrow> real" where
  "ulp x = 2 powi (max (exponent x) (- 1022) - 52)"

definition roundDouble :: "real \<Rightarrow> real" where
  "roundDouble x = (if x = 0 then 0 else of_int (roundHalfEven (x / ulp x)) * ulp x)"

text \<open>
  \<^verbatim>\<open>random(min, max) = Math.floor(Math.random() * (max - min + 1)) + min\<close>; the first
  argument is the value \<^verbatim>\<open>Math.random()\<close> returned. The integers \<^verbatim>\<open>max - min + 1\<close> and
  \<^verbatim>\<open>min\<close> are small and exact; the product is rounded.
\<close>

definition random :: "real \<Rightarrow> int \<Rightarrow> int \<Rightarrow> int" where
  "random r lo hi = \<lfloor>roundDouble (r * real_of_int (hi - lo + 1))\<rfloor> + lo"

subsection \<open>Blocks and the snake\<close>

record Block =
  px :: int
  py :: int
  color :: string

definition new_Block :: "int \<Rightarrow> int \<Rightarrow> string \<Rightarrow> Block" where
  "new_Block x y c = \<lparr>px = x, py = y, color = c\<rparr>"

definition new_Food :: "int \<Rightarrow> int \<Rightarrow> Block" where
  "new_Food x y = new_Block x y foodColor"

text \<open>
  A snake: its blocks head first, the direction the next step will take, the direction of
  the last step (\<^verbatim>\<open>#lastMove\<close>), and the number of key listeners registered with the signal
  of its current \<^verbatim>\<open>#controller\<close>.
\<close>

record Snake =
  body :: "Block list"
  direction :: direction
  lastMove :: direction
  listeners :: nat

subsection \<open>Global variables\<close>

datatype status = End | Run | Pause

datatype effect = UpdateScores | DrawFrame | Alert | RequestFrame

text \<open>
  The globals, and the environment: \<open>rnd\<close> is the sequence of values \<^verbatim>\<open>Math.random()\<close>
  returns over the life of the page, \<open>rndPos\<close> the number of them already used, and
  \<open>effects\<close> the calls made to the page so far, oldest first. \<open>None\<close> stands for
  \<^verbatim>\<open>undefined\<close> in \<open>start\<close> and \<open>prevTime\<close>.
\<close>

record game =
  snake :: Snake
  food :: Block
  start :: "real option"
  prevTime :: "real option"
  gameStatus :: status
  score :: int
  highestScore :: int
  rnd :: "nat \<Rightarrow> real"
  rndPos :: nat
  effects :: "effect list"

subsection \<open>Methods of the snake\<close>

text \<open>Reading \<^verbatim>\<open>this.body[0].x\<close> of an empty array throws; that is the only exception.\<close>

datatype error = TypeError

definition verse :: "direction \<Rightarrow> direction" where
  "verse d = dirOf (dirCode d XOR 1)"

definition new_Snake :: "int \<Rightarrow> int \<Rightarrow> direction \<Rightarrow> Snake" where
  "new_Snake x y d =
     \<lparr>body = [new_Block x y snakeHeadColor,
              new_Block (x + kDx ! dirCode (verse d)) (y + kDy ! dirCode (verse d)) snakeBodyColor],
      direction = d, lastMove = d, listeners = 0\<rparr>"

definition next_pos :: "Snake \<Rightarrow> error + int \<times> int" where
  "next_pos s =
     (case body s of
        [] \<Rightarrow> Inl TypeError
      | b # _ \<Rightarrow> Inr (px b + kDx ! dirCode (direction s), py b + kDy ! dirCode (direction s)))"

text \<open>
  The loop of \<^verbatim>\<open>checkMove\<close>, entered at index \<open>i\<close>, together with the
  \<^verbatim>\<open>return true\<close> that follows it.
\<close>

function checkMove_from :: "Block list \<Rightarrow> nat \<Rightarrow> int \<Rightarrow> int \<Rightarrow> bool" where
  "checkMove_from bs i x y =
     (if i < length bs
      then (if px (bs ! i) = x \<and> py (bs ! i) = y then False
            else checkMove_from bs (i + 1) x y)
      else True)"
  by pat_completeness auto
termination
  by (relation "measure (\<lambda>(bs, i, x, y). length bs - i)") auto

definition checkMove :: "Snake \<Rightarrow> error + bool" where
  "checkMove s =
     (case next_pos s of
        Inl e \<Rightarrow> Inl e
      | Inr (x, y) \<Rightarrow>
          if x < 0 \<or> x \<ge> rows \<or> y < 0 \<or> y \<ge> cols then Inr False
          else Inr (checkMove_from (body s) 4 x y))"

definition eatFood :: "Snake \<Rightarrow> Block \<Rightarrow> error + bool" where
  "eatFood s fd =
     (case next_pos s of
        Inl e \<Rightarrow> Inl e
      | Inr (x, y) \<Rightarrow> if x = px fd \<and> y = py fd then Inr True else Inr False)"

definition extend :: "Snake \<Rightarrow> error + Snake" where
  "extend s =
     (case next_pos s of
        Inl e \<Rightarrow> Inl e
      | Inr (x, y) \<Rightarrow>
          (case body s of
             [] \<Rightarrow> Inl TypeError
           | b # bs \<Rightarrow>
               Inr (s\<lparr>body := new_Block x y snakeHeadColor # b\<lparr>color := snakeBodyColor\<rparr> # bs,
                      lastMove := direction s\<rparr>)))"

definition move :: "Snake \<Rightarrow> error + Snake" where
  "move s =
     (case extend s of
        Inl e \<Rightarrow> Inl e
      | Inr s' \<Rightarrow> Inr (s'\<lparr>body := butlast (body s')\<rparr>))"

definition updateDirection :: "direction \<Rightarrow> Snake \<Rightarrow> Snake" where
  "updateDirection d s =
     (if drop_bit 1 (dirCode d) = drop_bit 1 (dirCode (lastMove s)) then s
      else s\<lparr>direction := d\<rparr>)"

definition keyDirection :: "string \<Rightarrow> direction option" where
  "keyDirection k =
     (if k = ''w'' \<or> k = ''ArrowUp'' then Some kUp
      else if k = ''s'' \<or> k = ''ArrowDown'' then Some kDown
      else if k = ''a'' \<or> k = ''ArrowLeft'' then Some kLeft
      else if k = ''d'' \<or> k = ''ArrowRight'' then Some kRight
      else None)"

text \<open>One run of the listener that \<^verbatim>\<open>bindKeys\<close> registers.\<close>

definition onKeyDown :: "string \<Rightarrow> Snake \<Rightarrow> Snake" where
  "onKeyDown k s = (case keyDirection k of None \<Rightarrow> s | Some d \<Rightarrow> updateDirection d s)"

definition bindKeys :: "Snake \<Rightarrow> Snake" where
  "bindKeys s = s\<lparr>listeners := listeners s + 1\<rparr>"

text \<open>Aborting the controller removes every listener registered with its signal.\<close>

definition unbindKeys :: "Snake \<Rightarrow> Snake" where
  "unbindKeys s = s\<lparr>listeners := 0\<rparr>"

subsection \<open>Effects on the page\<close>

definition emit :: "effect \<Rightarrow> game \<Rightarrow> game" where
  "emit e g = g\<lparr>effects := effects g @ [e]\<rparr>"

definition updateScores :: "game \<Rightarrow> game" where
  "updateScores g = emit UpdateScores g"

definition drawFrame :: "game \<Rightarrow> game" where
  "drawFrame g = emit DrawFrame g"

definition alert :: "game \<Rightarrow> game" where
  "alert g = emit Alert g"

definition requestAnimationFrame :: "game \<Rightarrow> game" where
  "requestAnimationFrame g = emit RequestFrame g"

subsection \<open>Food\<close>

fun blockExist_body :: "Block list \<Rightarrow> int \<Rightarrow> int \<Rightarrow> bool" where
  "blockExist_body [] x y = False"
| "blockExist_body (b # bs) x y = (if px b = x \<and> py b = y then True else blockExist_body bs x y)"

definition blockExist :: "game \<Rightarrow> int \<Rightarrow> int \<Rightarrow> bool" where
  "blockExist g x y =
     (if x = px (food g) \<and> y = py (food g) then True
      else blockExist_body (body (snake g)) x y)"

text \<open>
  The \<^verbatim>\<open>do ... while\<close> of \<^verbatim>\<open>updateFood\<close>: each round takes two samples, and the loop
  has no bound, so it is a partial function. \<open>None\<close> means that it never leaves the loop.
  The result is the accepted cell and the number of samples used up.
\<close>

partial_function (option) updateFood_loop :: "game \<Rightarrow> nat \<Rightarrow> (int \<times> int \<times> nat) option" where
  "updateFood_loop g i =
     (if blockExist g (random (rnd g i) 0 (rows - 1)) (random (rnd g (i + 1)) 0 (cols - 1))
      then updateFood_loop g (i + 2)
      else Some (random (rnd g i) 0 (rows - 1), random (rnd g (i + 1)) 0 (cols - 1), i + 2))"

declare updateFood_loop.simps [code]

definition updateFood :: "game \<Rightarrow> game option" where
  "updateFood g =
     (case updateFood_loop g (rndPos g) of
        None \<Rightarrow> None
      | Some (x, y, i) \<Rightarrow> Some (g\<lparr>food := (food g)\<lparr>px := x, py := y\<rparr>, rndPos := i\<rparr>))"

subsection \<open>Game control\<close>

definition resetGame :: "game \<Rightarrow> game" where
  "resetGame g =
     g\<lparr>start := None, score := 0, snake := new_Snake 10 10 kRight, food := new_Food 15 15\<rparr>"

definition initGame :: "game \<Rightarrow> game" where
  "initGame g = drawFrame (updateScores (resetGame g))"

text \<open>
  What a call can come to: it never returns (the food loop), it throws, or it returns.
\<close>

datatype 'a outcome = Diverges | Raises error | Returns 'a

text \<open>How one round of the tick loop ends: at its last statement, or at the \<^verbatim>\<open>return\<close>.\<close>

datatype flow = Continue | Return

definition tick :: "game \<Rightarrow> (flow \<times> game) outcome" where
  "tick g =
     (case eatFood (snake g) (food g) of
        Inl e \<Rightarrow> Raises e
      | Inr True \<Rightarrow>
          (let g1 = g\<lparr>score := score g + 1\<rparr>;
               g2 = g1\<lparr>highestScore := max (score g1) (highestScore g1)\<rparr>;
               g3 = updateScores g2
           in case updateFood g3 of
                None \<Rightarrow> Diverges
              | Some g4 \<Rightarrow>
                  (case extend (snake g4) of
                     Inl e \<Rightarrow> Raises e
                   | Inr s' \<Rightarrow> Returns (Continue, drawFrame (g4\<lparr>snake := s'\<rparr>))))
      | Inr False \<Rightarrow>
          (case checkMove (snake g) of
             Inl e \<Rightarrow> Raises e
           | Inr True \<Rightarrow>
               (case move (snake g) of
                  Inl e \<Rightarrow> Raises e
                | Inr s' \<Rightarrow> Returns (Continue, drawFrame (g\<lparr>snake := s'\<rparr>)))
           | Inr False \<Rightarrow> Returns (Return, alert (g\<lparr>gameStatus := End\<rparr>))))"

text \<open>The \<^verbatim>\<open>for\<close> loop of \<^verbatim>\<open>loop\<close> with \<open>n\<close> rounds still to go.\<close>

fun ticks_loop :: "nat \<Rightarrow> game \<Rightarrow> (flow \<times> game) outcome" where
  "ticks_loop 0 g = Returns (Continue, g)"
| "ticks_loop (Suc n) g =
     (case tick g of
        Diverges \<Rightarrow> Diverges
      | Raises e \<Rightarrow> Raises e
      | Returns (Return, g') \<Rightarrow> Returns (Return, g')
      | Returns (Continue, g') \<Rightarrow> ticks_loop n g')"

text \<open>
  \<^verbatim>\<open>Math.floor((time - prevTime) / 250)\<close>: the difference is rounded, then the quotient.
  With \<open>prevTime\<close> undefined the result is NaN (\<open>None\<close>): then \<^verbatim>\<open>i < ticks\<close> and
  \<^verbatim>\<open>ticks >= 1\<close> are both false.
\<close>

definition elapsedTicks :: "real \<Rightarrow> real option \<Rightarrow> int option" where
  "elapsedTicks time prev =
     (case prev of
        None \<Rightarrow> None
      | Some p \<Rightarrow> Some \<lfloor>roundDouble (roundDouble (time - p) / 250)\<rfloor>)"

definition rounds :: "int option \<Rightarrow> nat" where
  "rounds ticks = (case ticks of None \<Rightarrow> 0 | Some k \<Rightarrow> nat k)"

definition atLeastOne :: "int option \<Rightarrow> bool" where
  "atLeastOne ticks = (case ticks of None \<Rightarrow> False | Some k \<Rightarrow> k \<ge> 1)"

text \<open>\<^verbatim>\<open>if (start === undefined) start = prevTime = time\<close>\<close>

definition rebase :: "real \<Rightarrow> game \<Rightarrow> game" where
  "rebase time g = (if start g = None then g\<lparr>start := Some time, prevTime := Some time\<rparr> else g)"

definition loop :: "real \<Rightarrow> game \<Rightarrow> game outcome" where
  "loop time g =
     (if gameStatus g = End \<or> gameStatus g = Pause then Returns g
      else
        let g1 = rebase time g;
            ticks = elapsedTicks time (prevTime g1)
        in case ticks_loop (rounds ticks) g1 of
             Diverges \<Rightarrow> Diverges
           | Raises e \<Rightarrow> Raises e
           | Returns (Return, g2) \<Rightarrow> Returns g2
           | Returns (Continue, g2) \<Rightarrow>
               Returns (requestAnimationFrame
                          (if atLeastOne ticks then g2\<lparr>prevTime := Some time\<rparr> else g2)))"

subsection \<open>Buttons, keys and frames\<close>

definition onStart :: "game \<Rightarrow> game" where
  "onStart g =
     (if gameStatus g \<noteq> End then g
      else
        let g1 = resetGame g;
            g2 = g1\<lparr>gameStatus := Run\<rparr>;
            g3 = g2\<lparr>snake := bindKeys (snake g2)\<rparr>
        in requestAnimationFrame g3)"

definition onPause :: "game \<Rightarrow> game" where
  "onPause g =
     (if gameStatus g \<noteq> Run then g
      else g\<lparr>gameStatus := Pause, start := None, snake := unbindKeys (snake g)\<rparr>)"

definition onResume :: "game \<Rightarrow> game" where
  "onResume g =
     (if gameStatus g \<noteq> Pause then g
      else
        let g1 = g\<lparr>gameStatus := Run\<rparr>;
            g2 = g1\<lparr>snake := bindKeys (snake g1)\<rparr>
        in requestAnimationFrame g2)"

definition onRestart :: "game \<Rightarrow> game" where
  "onRestart g =
     (if gameStatus g \<noteq> Run then g
      else let g1 = initGame g in g1\<lparr>snake := bindKeys (snake g1)\<rparr>)"

definition onEnd :: "game \<Rightarrow> game" where
  "onEnd g = (if gameStatus g = End then g else initGame (g\<lparr>gameStatus := End\<rparr>))"

text \<open>
  A key press runs every listener attached to the current snake. Listeners left on a snake
  that \<^verbatim>\<open>resetGame\<close> has replaced write to that old object only, which nothing reads.
\<close>

definition onKey :: "string \<Rightarrow> game \<Rightarrow> game" where
  "onKey k g = g\<lparr>snake := (onKeyDown k ^^ listeners (snake g)) (snake g)\<rparr>"

text \<open>
  The values of the globals when \<^verbatim>\<open>main()\<close> has returned: their initialisers, then
  \<^verbatim>\<open>initGame()\<close>. The argument is the page's random sequence.
\<close>

definition main :: "(nat \<Rightarrow> real) \<Rightarrow> game" where
  "main r =
     drawFrame (updateScores
       \<lparr>snake = new_Snake 10 10 kRight, food = new_Food 15 15, start = None, prevTime = None,
        gameStatus = End, score = 0, highestScore = 0, rnd = r, rndPos = 0, effects = []\<rparr>)"

text \<open>
  The callbacks the browser can run. The \<^verbatim>\<open>auto\<close> button has no listener. A frame
  callback is allowed at any moment and with any timestamp, which covers every schedule of
  the browser's frame clock.
\<close>

datatype event =
    ClickStart | ClickPause | ClickResume | ClickRestart | ClickEnd | ClickAuto
  | KeyDown string | Frame real

fun handle :: "event \<Rightarrow> game \<Rightarrow> game outcome" where
  "handle ClickStart g = Returns (onStart g)"
| "handle ClickPause g = Returns (onPause g)"
| "handle ClickResume g = Returns (onResume g)"
| "handle ClickRestart g = Returns (onRestart g)"
| "handle ClickEnd g = Returns (onEnd g)"
| "handle ClickAuto g = Returns g"
| "handle (KeyDown k) g = Returns (onKey k g)"
| "handle (Frame t) g = loop t g"

fun run :: "event list \<Rightarrow> game \<Rightarrow> game outcome" where
  "run [] g = Returns g"
| "run (e # es) g =
     (case handle e g of
        Diverges \<Rightarrow> Diverges
      | Raises err \<Rightarrow> Raises err
      | Returns g' \<Rightarrow> run es g')"

inductive reachable :: "game \<Rightarrow> bool" where
  reachable_main: "reachable (main r)"
| reachable_step: "reachable g \<Longrightarrow> handle e g = Returns g' \<Longrightarrow> reachable g'"

text \<open>
  The snakes the class can produce, whatever its caller does: a constructed snake, and a
  snake after any of its methods has returned.
\<close>

inductive snakeState :: "Snake \<Rightarrow> bool" where
  snake_new: "snakeState (new_Snake x y d)"
| snake_extend: "snakeState s \<Longrightarrow> extend s = Inr s' \<Longrightarrow> snakeState s'"
| snake_move: "snakeState s \<Longrightarrow> move s = Inr s' \<Longrightarrow> snakeState s'"
| snake_turn: "snakeState s \<Longrightarrow> snakeState (updateDirection d s)"
| snake_bind: "snakeState s \<Longrightarrow> snakeState (bindKeys s)"
| snake_unbind: "snakeState s \<Longrightarrow> snakeState (unbindKeys s)"

section \<open>Notions used by the specification\<close>

text \<open>
  The specification's wording of the self-collision test: the next cell is the cell of a
  body segment at index 4 or later.
\<close>

definition hitsFromIndex4 :: "Snake \<Rightarrow> bool" where
  "hitsFromIndex4 s =
     (case next_pos s of
        Inl e \<Rightarrow> False
      | Inr (x, y) \<Rightarrow> list_ex (\<lambda>b. px b = x \<and> py b = y) (drop 4 (body s)))"

text \<open>The cell of a block, and the cells a body occupies, with multiplicity.\<close>

definition cell :: "Block \<Rightarrow> int \<times> int" where
  "cell b = (px b, py b)"

definition cells :: "Block list \<Rightarrow> (int \<times> int) multiset" where
  "cells bs = mset (map cell bs)"

text \<open>
  What the food loop, entered with \<open>i\<close> samples used, can return: a cell that
  \<open>blockExist\<close> rejects, computed from two consecutive samples not before \<open>i\<close>.
\<close>

definition sampledAt :: "game \<Rightarrow> nat \<Rightarrow> int \<times> int \<times> nat \<Rightarrow> bool" where
  "sampledAt g i res \<longleftrightarrow>
     \<not> blockExist g (fst res) (fst (snd res)) \<and>
     (\<exists>k\<ge>i. snd (snd res) = k + 2 \<and> fst res = random (rnd g k) 0 (rows - 1)
            \<and> fst (snd res) = random (rnd g (k + 1)) 0 (cols - 1))"

text \<open>The reals that are doubles: those that rounding leaves as they are.\<close>

definition isDouble :: "real \<Rightarrow> bool" where
  "isDouble x \<longleftrightarrow> roundDouble x = x"

text \<open>
  A sample sequence for the examples. Its first pair gives the cell \<open>(15, 15)\<close>, where the
  food is put by \<^verbatim>\<open>resetGame\<close>; every later pair gives \<open>(3, 7)\<close>.
\<close>

definition sampleSeq :: "nat \<Rightarrow> real" where
  "sampleSeq n = (if n < 2 then 1 / 2 else if even n then 1 / 8 else 1 / 4)"

text \<open>Two blocks differ by exactly one unit step in exactly one coordinate.\<close>

definition adjacent :: "Block \<Rightarrow> Block \<Rightarrow> bool" where
  "adjacent a b \<longleftrightarrow>
     (px a = px b \<and> \<bar>py a - py b\<bar> = 1) \<or> (py a = py b \<and> \<bar>px a - px b\<bar> = 1)"

text \<open>Consecutive segments of a body are adjacent.\<close>

definition linked :: "Block list \<Rightarrow> bool" where
  "linked bs \<longleftrightarrow> (\<forall>i. i + 1 < length bs \<longrightarrow> adjacent (bs ! i) (bs ! (i + 1)))"

text \<open>The food is on no cell of the snake.\<close>

definition foodFree :: "game \<Rightarrow> bool" where
  "foodFree g \<longleftrightarrow> cell (food g) \<notin> cell ` set (body (snake g))"

text \<open>What holds of the snake and the food in every state the game can reach.\<close>

definition sound :: "game \<Rightarrow> bool" where
  "sound g \<longleftrightarrow> 2 \<le> length (body (snake g)) \<and> linked (body (snake g)) \<and> foodFree g"

text \<open>
  What a button or a key does to the snake's cells and the food: nothing, or the reset of
  \<^verbatim>\<open>resetGame\<close>.
\<close>

definition keepsOrResets :: "game \<Rightarrow> game \<Rightarrow> bool" where
  "keepsOrResets g g' \<longleftrightarrow>
     (body (snake g') = body (snake g) \<and> food g' = food g) \<or>
     (body (snake g') = body (new_Snake 10 10 kRight) \<and> food g' = new_Food 15 15)"

text \<open>
  An example game: start, a first frame at time 0, a frame after five ticks, the key
  \<^verbatim>\<open>s\<close>, and a frame after five more ticks, in which the snake reaches the food at
  \<open>(15, 15)\<close>. \<open>aboutToEat\<close> and \<open>justAte\<close> are the globals before and after the tick that
  eats.
\<close>

definition demoEvents :: "event list" where
  "demoEvents = [ClickStart, Frame 0, Frame 1250, KeyDown ''s'', Frame 2500]"

definition demoGame :: game where
  "demoGame =
     \<lparr>snake = \<lparr>body = [new_Block 15 15 snakeHeadColor, new_Block 15 14 snakeBodyColor,
                       new_Block 15 13 snakeBodyColor],
               direction = kDown, lastMove = kDown, listeners = 1\<rparr>,
      food = new_Food 3 7, start = Some 0, prevTime = Some 2500, gameStatus = Run,
      score = 1, highestScore = 1, rnd = sampleSeq, rndPos = 4,
      effects = [UpdateScores, DrawFrame, RequestFrame, RequestFrame, DrawFrame,
        DrawFrame, DrawFrame, DrawFrame, DrawFrame, RequestFrame, DrawFrame,
        DrawFrame, DrawFrame, DrawFrame, UpdateScores, DrawFrame, RequestFrame]\<rparr>"

definition aboutToEat :: game where
  "aboutToEat =
     \<lparr>snake = \<lparr>body = [new_Block 15 14 snakeHeadColor, new_Block 15 13 snakeBodyColor],
               direction = kDown, lastMove = kDown, listeners = 1\<rparr>,
      food = new_Food 15 15, start = Some 0, prevTime = Some 1250, gameStatus = Run,
      score = 0, highestScore = 0, rnd = sampleSeq, rndPos = 0,
      effects = [UpdateScores, DrawFrame, RequestFrame, RequestFrame, DrawFrame,
        DrawFrame, DrawFrame, DrawFrame, DrawFrame, RequestFrame, DrawFrame,
        DrawFrame, DrawFrame, DrawFrame]\<rparr>"

definition justAte :: game where
  "justAte = demoGame\<lparr>prevTime := Some 1250, effects := butlast (effects demoGame)\<rparr>"

text \<open>
  A running game one step from the right wall, and the same game one tick later, with the
  head in the last column.
\<close>

definition nearWall :: game where
  "nearWall =
     \<lparr>snake = \<lparr>body = [new_Block 28 10 snakeHeadColor, new_Block 27 10 snakeBodyColor],
               direction = kRight, lastMove = kRight, listeners = 1\<rparr>,
      food = new_Food 15 15, start = Some 0, prevTime = Some 4500, gameStatus = Run,
      score = 0, highestScore = 0, rnd = sampleSeq, rndPos = 0, effects = []\<rparr>"

definition atWall :: game where
  "atWall =
     \<lparr>snake = \<lparr>body = [new_Block 29 10 snakeHeadColor, new_Block 28 10 snakeBodyColor],
               direction = kRight, lastMove = kRight, listeners = 1\<rparr>,
      food = new_Food 15 15, start = Some 0, prevTime = Some 4500, gameStatus = Run,
      score = 0, highestScore = 0, rnd = sampleSeq, rndPos = 0, effects = [DrawFrame]\<rparr>"

text \<open>
  A game that was started, got its first frame at time 1000, and was paused and resumed;
  and the game right after that first frame.
\<close>

definition resumeEvents :: "event list" where
  "resumeEvents = [ClickStart, Frame 1000, ClickPause, ClickResume]"

definition resumed :: game where
  "resumed =
     \<lparr>snake = (new_Snake 10 10 kRight)\<lparr>listeners := 1\<rparr>,
      food = new_Food 15 15, start = None, prevTime = Some 1000, gameStatus = Run,
      score = 0, highestScore = 0, rnd = sampleSeq, rndPos = 0,
      effects = [UpdateScores, DrawFrame, RequestFrame, RequestFrame, RequestFrame]\<rparr>"

definition firstFrameDone :: game where
  "firstFrameDone =
     \<lparr>snake = (new_Snake 10 10 kRight)\<lparr>listeners := 1\<rparr>,
      food = new_Food 15 15, start = Some 1000, prevTime = Some 1000, gameStatus = Run,
      score = 0, highestScore = 0, rnd = sampleSeq, rndPos = 0,
      effects = [UpdateScores, DrawFrame, RequestFrame, RequestFrame]\<rparr>"

text \<open>
  The specification's wording of a frame in which no tick is due: with
  \<open>floor((time - prevTime) / 250) = 0\<close> in a running game, the callback returns and leaves
  the snake, the food, both scores, the status and \<open>prevTime\<close> as they are, and requests
  the next frame.
\<close>

definition idleFrame :: "real \<Rightarrow> game \<Rightarrow> bool" where
  "idleFrame time g \<longleftrightarrow>
     (gameStatus g = Run \<and> elapsedTicks time (prevTime g) = Some 0 \<longrightarrow>
        (case loop time g of
           Returns g' \<Rightarrow>
             snake g' = snake g \<and> food g' = food g \<and> score g' = score g \<and>
             highestScore g' = highestScore g \<and> gameStatus g' = gameStatus g \<and>
             prevTime g' = prevTime g \<and> effects g' = effects g @ [RequestFrame]
         | _ \<Rightarrow> False))"

section \<open>Basic facts\<close>

declare checkMove_from.simps [simp del]

lemma verse_simps:
  "verse kUp = kDown" "verse kDown = kUp" "verse kLeft = kRight" "verse kRight = kLeft"
  by (simp_all add: verse_def dirOf_def)

lemma axis_verse: "drop_bit 1 (dirCode (verse d)) = drop_bit 1 (dirCode d)"
  by (cases d) (simp_all add: verse_simps drop_bit_eq_div)

lemma next_pos_Cons:
  "body s = b # bs \<Longrightarrow>
     next_pos s = Inr (px b + kDx ! dirCode (direction s), py b + kDy ! dirCode (direction s))"
  by (simp add: next_pos_def)

lemma checkMove_from_iff:
  "checkMove_from bs i x y \<longleftrightarrow> \<not> (\<exists>j. i \<le> j \<and> j < length bs \<and> px (bs ! j) = x \<and> py (bs ! j) = y)"
proof (induction bs i x y rule: checkMove_from.induct)
  case (1 bs i x y)
  show ?case
  proof (cases "i < length bs")
    case False
    then show ?thesis by (subst checkMove_from.simps) auto
  next
    case True
    show ?thesis
    proof (cases "px (bs ! i) = x \<and> py (bs ! i) = y")
      case hit: True
      with True show ?thesis by (subst checkMove_from.simps) auto
    next
      case miss: False
      have shift: "(\<exists>j. i \<le> j \<and> j < length bs \<and> px (bs ! j) = x \<and> py (bs ! j) = y)
            \<longleftrightarrow> (\<exists>j. i + 1 \<le> j \<and> j < length bs \<and> px (bs ! j) = x \<and> py (bs ! j) = y)"
        using miss by (metis Suc_eq_plus1 Suc_leI le_neq_implies_less Suc_leD)
      have unf: "checkMove_from bs i x y = checkMove_from bs (i + 1) x y"
        using True miss by (subst checkMove_from.simps) auto
      have "checkMove_from bs (i + 1) x y \<longleftrightarrow>
            \<not> (\<exists>j. i + 1 \<le> j \<and> j < length bs \<and> px (bs ! j) = x \<and> py (bs ! j) = y)"
        using True miss by (rule "1.IH")
      with unf shift show ?thesis by simp
    qed
  qed
qed

lemma index_ge_iff_drop:
  "(\<exists>i. n \<le> i \<and> i < length bs \<and> P (bs ! i)) \<longleftrightarrow> (\<exists>b \<in> set (drop n bs). P b)"
  (is "?L \<longleftrightarrow> ?R")
proof
  assume ?L
  then obtain i where i: "n \<le> i" "i < length bs" "P (bs ! i)"
    by blast
  then have "i - n < length (drop n bs)" "drop n bs ! (i - n) = bs ! i"
    by auto
  then have "bs ! i \<in> set (drop n bs)"
    by (metis nth_mem)
  with i show ?R by blast
next
  assume ?R
  then obtain k where k: "k < length (drop n bs)" "P (drop n bs ! k)"
    by (auto simp: in_set_conv_nth)
  then have "n \<le> n + k \<and> n + k < length bs \<and> P (bs ! (n + k))"
    by auto
  then show ?L by blast
qed

lemma checkMove_from_drop:
  "checkMove_from bs n x y \<longleftrightarrow> \<not> (\<exists>b \<in> set (drop n bs). px b = x \<and> py b = y)"
  using index_ge_iff_drop [of n bs "\<lambda>b. px b = x \<and> py b = y"]
  by (simp add: checkMove_from_iff)

lemma extend_Cons:
  "body s = b # bs \<Longrightarrow>
     extend s =
       Inr (s\<lparr>body := new_Block (px b + kDx ! dirCode (direction s))
                                (py b + kDy ! dirCode (direction s)) snakeHeadColor
                      # b\<lparr>color := snakeBodyColor\<rparr> # bs,
              lastMove := direction s\<rparr>)"
  by (simp add: extend_def next_pos_def)

lemma move_Cons:
  "body s = b # bs \<Longrightarrow>
     move s =
       Inr (s\<lparr>body := new_Block (px b + kDx ! dirCode (direction s))
                                (py b + kDy ! dirCode (direction s)) snakeHeadColor
                      # butlast (b\<lparr>color := snakeBodyColor\<rparr> # bs),
              lastMove := direction s\<rparr>)"
  by (simp add: move_def extend_Cons)

lemma head_body_colors_differ: "snakeHeadColor \<noteq> snakeBodyColor"
  by (simp add: snakeHeadColor_def snakeBodyColor_def)

lemma blockExist_body_iff: "blockExist_body bs x y \<longleftrightarrow> (x, y) \<in> cell ` set bs"
  by (induction bs) (auto simp: cell_def)

lemma blockExist_iff:
  "blockExist g x y \<longleftrightarrow> (x, y) = cell (food g) \<or> (x, y) \<in> cell ` set (body (snake g))"
  by (auto simp: blockExist_def blockExist_body_iff cell_def)

lemma roundHalfEven_le: "real_of_int (roundHalfEven y) \<le> y + 1 / 2"
  unfolding roundHalfEven_def Let_def by (auto; linarith)

lemma roundHalfEven_ge: "y - 1 / 2 \<le> real_of_int (roundHalfEven y)"
  unfolding roundHalfEven_def Let_def by (auto; linarith)

lemma roundHalfEven_nonneg: "0 \<le> y \<Longrightarrow> 0 \<le> roundHalfEven y"
  unfolding roundHalfEven_def Let_def by (auto; linarith)

lemma roundHalfEven_of_int [simp]: "roundHalfEven (of_int n) = n"
  by (simp add: roundHalfEven_def)

lemma ulp_pos: "0 < ulp x"
  by (simp add: ulp_def)

lemma roundDouble_zero [simp]: "roundDouble 0 = 0"
  by (simp add: roundDouble_def)

lemma roundDouble_nonneg: "0 \<le> x \<Longrightarrow> 0 \<le> roundDouble x"
  using ulp_pos [of x] roundHalfEven_nonneg [of "x / ulp x"]
  by (simp add: roundDouble_def)

lemma roundDouble_le: "roundDouble x \<le> x + ulp x / 2"
proof (cases "x = 0")
  case True
  with ulp_pos [of x] show ?thesis by simp
next
  case False
  have "real_of_int (roundHalfEven (x / ulp x)) * ulp x \<le> (x / ulp x + 1 / 2) * ulp x"
    using roundHalfEven_le [of "x / ulp x"] ulp_pos [of x]
    by (intro mult_right_mono) simp_all
  also have "\<dots> = x + ulp x / 2"
    using ulp_pos [of x] by (simp add: field_simps)
  finally show ?thesis
    using False by (simp add: roundDouble_def)
qed

lemma exponent_less_32:
  assumes "0 < x" "x < 32"
  shows "exponent x \<le> 4"
proof (cases "1 \<le> x")
  case True
  have "\<lfloor>x\<rfloor> < 2 ^ nat 5"
    using assms by (simp add: floor_less_iff)
  then have "bitlen \<lfloor>x\<rfloor> \<le> 5"
    by (simp add: bitlen_le_iff_power)
  with True assms show ?thesis
    by (simp add: exponent_def)
next
  case False
  with assms bitlen_nonneg [of "\<lceil>1 / x\<rceil> - 1"] show ?thesis
    by (simp add: exponent_def)
qed

lemma ulp_less_32:
  assumes "0 < x" "x < 32"
  shows "ulp x \<le> 1 / 2 ^ 48"
proof -
  have "max (exponent x) (- 1022) - 52 \<le> - 48"
    using exponent_less_32 [OF assms] by simp
  then have "(2::real) powi (max (exponent x) (- 1022) - 52) \<le> 2 powi (- 48)"
    by (intro power_int_increasing) simp_all
  then show ?thesis
    by (simp add: ulp_def power_int_minus field_simps)
qed

lemma exponent_half:
  assumes "1 / 2 \<le> x" "x < 1"
  shows "exponent x = - 1"
proof -
  have "1 < 1 / x" "1 / x \<le> 2"
    using assms by (simp_all add: field_simps)
  then have "\<lceil>1 / x\<rceil> = 2"
    by (simp add: ceiling_eq_iff)
  with assms show ?thesis
    by (simp add: exponent_def compute_bitlen)
qed

lemma isDouble_below_1:
  assumes "isDouble r" "0 \<le> r" "r < 1"
  shows "r \<le> 1 - 1 / 2 ^ 53"
proof (cases "r < 1 / 2")
  case True
  then show ?thesis by simp
next
  case False
  then have half: "1 / 2 \<le> r" by simp
  have u: "ulp r = 1 / 2 ^ 53"
    by (simp add: ulp_def exponent_half [OF half assms(3)] power_int_minus field_simps)
  define k where "k = roundHalfEven (r / ulp r)"
  have r: "r = of_int k * (1 / 2 ^ 53)"
    using assms(1) half by (simp add: isDouble_def roundDouble_def k_def u)
  with assms(3) have "real_of_int k < 2 ^ 53"
    by (simp add: field_simps)
  then have "real_of_int k < real_of_int (2 ^ 53)"
    by simp
  then have "k < 2 ^ 53"
    by (rule iffD1 [OF of_int_less_iff])
  then have "k \<le> 2 ^ 53 - 1"
    by simp
  then have "real_of_int k \<le> real_of_int (2 ^ 53 - 1)"
    by (rule iffD2 [OF of_int_le_iff])
  then have "real_of_int k \<le> 2 ^ 53 - 1"
    by simp
  then have "real_of_int k * (1 / 2 ^ 53) \<le> (2 ^ 53 - 1) * (1 / 2 ^ 53)"
    by (intro mult_right_mono) simp_all
  also have "\<dots> = 1 - 1 / 2 ^ 53"
    by (simp add: field_simps)
  finally show ?thesis
    using r by simp
qed

lemma random_in_grid:
  assumes "isDouble r" "0 \<le> r" "r < 1"
  shows "0 \<le> random r 0 29 \<and> random r 0 29 \<le> 29"
proof -
  let ?x = "r * 30"
  have lower: "0 \<le> roundDouble ?x"
    using assms(2) by (intro roundDouble_nonneg) simp
  have "roundDouble ?x < 30"
  proof (cases "r = 0")
    case True
    then show ?thesis by simp
  next
    case False
    with assms(2) have pos: "0 < ?x" by simp
    have le: "?x \<le> 30 - 30 / 2 ^ 53"
      using isDouble_below_1 [OF assms] by simp
    then have "?x < 32" by simp
    from ulp_less_32 [OF pos this] roundDouble_le [of ?x] le
    show ?thesis by simp
  qed
  with lower show ?thesis
    by (simp add: random_def floor_less_iff le_floor_iff)
qed

lemma roundDouble_of_int:
  assumes "\<bar>n\<bar> < 2 ^ 53"
  shows "roundDouble (of_int n) = of_int n"
proof (cases "n = 0")
  case True
  then show ?thesis by simp
next
  case False
  let ?e = "max (exponent (of_int n)) (- 1022) - 52"
  have "1 \<le> \<bar>n\<bar>"
    using False by simp
  then have "real_of_int 1 \<le> real_of_int \<bar>n\<bar>"
    by (rule iffD2 [OF of_int_le_iff])
  then have one: "1 \<le> \<bar>real_of_int n\<bar>"
    by simp
  have "\<bar>n\<bar> < 2 ^ nat 53"
    using assms by simp
  then have "bitlen \<bar>n\<bar> \<le> 53"
    by (simp add: bitlen_le_iff_power)
  moreover have "exponent (of_int n) = bitlen \<bar>n\<bar> - 1"
    using one by (simp add: exponent_def flip: of_int_abs)
  ultimately have e: "?e \<le> 0"
    by simp
  have "ulp (of_int n) = 1 / 2 ^ nat (- ?e)"
    using e by (simp add: ulp_def power_int_def inverse_eq_divide power_one_over)
  then have "real_of_int n / ulp (of_int n) = of_int (n * 2 ^ nat (- ?e))"
    by simp
  then have "roundHalfEven (real_of_int n / ulp (of_int n)) = n * 2 ^ nat (- ?e)"
    by (simp only: roundHalfEven_of_int)
  then show ?thesis
    using False ulp_pos [of "of_int n"] \<open>ulp (of_int n) = 1 / 2 ^ nat (- ?e)\<close>
    by (simp add: roundDouble_def)
qed

lemma roundDouble_numeral [simp]:
  "numeral k < (2::int) ^ 53 \<Longrightarrow> roundDouble (numeral k) = numeral k"
  using roundDouble_of_int [of "numeral k"] by simp

text \<open>
  The rounding is what its name says: \<open>exponent\<close> is the binary exponent, the result is
  within half an \<open>ulp\<close> of the argument, and every binary64 value (a significand below
  \<open>2^53\<close> in magnitude times a power of two not below \<open>2^-1074\<close>) is left as it is.
\<close>

lemma exponent_bounds:
  assumes "x \<noteq> 0"
  shows "2 powi exponent x \<le> \<bar>x\<bar> \<and> \<bar>x\<bar> < 2 powi (exponent x + 1)"
proof (cases "1 \<le> \<bar>x\<bar>")
  case True
  define n where "n = \<lfloor>\<bar>x\<bar>\<rfloor>"
  define b where "b = bitlen n"
  have n: "0 < n" "real_of_int n \<le> \<bar>x\<bar>" "\<bar>x\<bar> < real_of_int n + 1"
    using True by (simp_all add: n_def)
  from bitlen_bounds [OF n(1)] have bnd: "2 ^ nat (b - 1) \<le> n" "n < 2 ^ nat b"
    by (simp_all add: b_def)
  have b1: "1 \<le> b"
    using n(1) by (simp add: b_def bitlen_alt_def)
  have e: "exponent x = b - 1"
    using True by (simp add: exponent_def b_def n_def)
  have "real_of_int (2 ^ nat (b - 1)) \<le> real_of_int n"
    using bnd(1) by (rule iffD2 [OF of_int_le_iff])
  moreover have "real_of_int (2 ^ nat (b - 1)) = 2 ^ nat (b - 1)"
    by simp
  ultimately have lo: "(2::real) ^ nat (b - 1) \<le> \<bar>x\<bar>"
    using n(2) by linarith
  from bnd(2) have "n + 1 \<le> 2 ^ nat b" by simp
  then have "real_of_int (n + 1) \<le> real_of_int (2 ^ nat b)"
    by (rule iffD2 [OF of_int_le_iff])
  moreover have "real_of_int (2 ^ nat b) = 2 ^ nat b" "real_of_int (n + 1) = real_of_int n + 1"
    by simp_all
  ultimately have hi: "\<bar>x\<bar> < (2::real) ^ nat b"
    using n(3) by linarith
  from lo hi b1 show ?thesis
    by (simp add: e power_int_def)
next
  case False
  define y where "y = 1 / \<bar>x\<bar>"
  define n where "n = \<lceil>y\<rceil>"
  define k where "k = bitlen (n - 1)"
  have xpos: "0 < \<bar>x\<bar>" "\<bar>x\<bar> < 1"
    using assms False by simp_all
  then have y1: "1 < y"
    by (simp add: y_def)
  have n: "y \<le> real_of_int n" "real_of_int n - 1 < y"
    unfolding n_def by linarith+
  from y1 n(1) have "1 < real_of_int n" by linarith
  then have m: "0 < n - 1" by linarith
  from bitlen_bounds [OF m] have bnd: "2 ^ nat (k - 1) \<le> n - 1" "n - 1 < 2 ^ nat k"
    by (simp_all add: k_def)
  have k1: "1 \<le> k"
    using m by (simp add: k_def bitlen_alt_def)
  have e: "exponent x = - k"
    using False by (simp add: exponent_def k_def n_def y_def)
  from bnd(2) have "n \<le> 2 ^ nat k" by simp
  then have "real_of_int n \<le> real_of_int (2 ^ nat k)"
    by (rule iffD2 [OF of_int_le_iff])
  moreover have "real_of_int (2 ^ nat k) = 2 ^ nat k"
    by simp
  ultimately have "y \<le> 2 ^ nat k"
    using n(1) by linarith
  then have lo: "1 / 2 ^ nat k \<le> \<bar>x\<bar>"
    using xpos(1) by (simp add: y_def field_simps)
  have "real_of_int (2 ^ nat (k - 1)) \<le> real_of_int (n - 1)"
    using bnd(1) by (rule iffD2 [OF of_int_le_iff])
  moreover have "real_of_int (2 ^ nat (k - 1)) = 2 ^ nat (k - 1)"
    "real_of_int (n - 1) = real_of_int n - 1"
    by simp_all
  ultimately have "2 ^ nat (k - 1) < y"
    using n(2) by linarith
  then have hi: "\<bar>x\<bar> < 1 / 2 ^ nat (k - 1)"
    using xpos(1) by (simp add: y_def field_simps)
  have p1: "(2::real) powi (- k) = 1 / 2 ^ nat k"
    using k1 by (simp add: power_int_def inverse_eq_divide power_one_over)
  have p2: "(2::real) powi (- k + 1) = 1 / 2 ^ nat (k - 1)"
  proof (cases "k = 1")
    case True
    then show ?thesis by simp
  next
    case False
    with k1 have "- k + 1 < 0" "nat (- (- k + 1)) = nat (k - 1)" by simp_all
    then show ?thesis
      by (simp add: power_int_def inverse_eq_divide power_one_over)
  qed
  from lo hi show ?thesis
    by (simp only: e p1 p2 simp_thms)
qed

lemma roundDouble_near: "\<bar>roundDouble x - x\<bar> \<le> ulp x / 2"
proof (cases "x = 0")
  case True
  with ulp_pos [of x] show ?thesis by simp
next
  case False
  let ?k = "real_of_int (roundHalfEven (x / ulp x))"
  have "\<bar>?k - x / ulp x\<bar> \<le> 1 / 2"
    using roundHalfEven_le [of "x / ulp x"] roundHalfEven_ge [of "x / ulp x"] by linarith
  then have "\<bar>?k - x / ulp x\<bar> * ulp x \<le> 1 / 2 * ulp x"
    using ulp_pos [of x] by (intro mult_right_mono) simp_all
  moreover have "\<bar>?k - x / ulp x\<bar> * ulp x = \<bar>?k * ulp x - x\<bar>"
  proof -
    have "\<bar>?k - x / ulp x\<bar> * ulp x = \<bar>(?k - x / ulp x) * ulp x\<bar>"
      using ulp_pos [of x] by (simp add: abs_mult)
    also have "(?k - x / ulp x) * ulp x = ?k * ulp x - x"
      using ulp_pos [of x] by (simp add: field_simps)
    finally show ?thesis .
  qed
  ultimately show ?thesis
    using False by (simp add: roundDouble_def)
qed

lemma isDouble_dyadic:
  assumes "\<bar>m\<bar> < 2 ^ 53" "- 1074 \<le> q"
  shows "isDouble (real_of_int m * 2 powi q)"
proof (cases "m = 0")
  case True
  then show ?thesis by (simp add: isDouble_def)
next
  case False
  let ?x = "real_of_int m * 2 powi q"
  let ?p = "max (exponent ?x) (- 1022) - 52"
  have x0: "?x \<noteq> 0"
    using False by simp
  have "real_of_int \<bar>m\<bar> < real_of_int (2 ^ 53)"
    using assms(1) by (rule iffD2 [OF of_int_less_iff])
  then have "\<bar>real_of_int m\<bar> < 2 powi 53"
    by simp
  then have "\<bar>real_of_int m\<bar> * 2 powi q < 2 powi 53 * 2 powi q"
    by (intro mult_strict_right_mono) simp_all
  also have "\<dots> = 2 powi (53 + q)"
    by (simp add: power_int_add)
  finally have "\<bar>?x\<bar> < 2 powi (53 + q)"
    by (simp add: abs_mult)
  with exponent_bounds [OF x0] have lt: "(2::real) powi exponent ?x < 2 powi (53 + q)"
    by linarith
  have "exponent ?x < 53 + q"
  proof (rule ccontr)
    assume "\<not> exponent ?x < 53 + q"
    then have "(2::real) powi (53 + q) \<le> 2 powi exponent ?x"
      by (intro power_int_increasing) simp_all
    with lt show False by simp
  qed
  with assms(2) have d: "0 \<le> q - ?p"
    by simp
  have "(2::real) powi q = 2 powi (q - ?p) * 2 powi ?p"
    by (simp flip: power_int_add)
  also have "(2::real) powi (q - ?p) = 2 ^ nat (q - ?p)"
    using d by (simp add: power_int_def)
  finally have q: "(2::real) powi q = 2 ^ nat (q - ?p) * ulp ?x"
    by (simp add: ulp_def)
  have "?x / ulp ?x = real_of_int m * 2 ^ nat (q - ?p)"
    using ulp_pos [of ?x] by (subst q) simp
  also have "\<dots> = real_of_int (m * 2 ^ nat (q - ?p))"
    by simp
  finally have "roundHalfEven (?x / ulp ?x) = m * 2 ^ nat (q - ?p)"
    by (simp only: roundHalfEven_of_int)
  then have "roundDouble ?x = real_of_int (m * 2 ^ nat (q - ?p)) * ulp ?x"
    using x0 by (simp add: roundDouble_def)
  also have "\<dots> = real_of_int m * (2 ^ nat (q - ?p) * ulp ?x)"
    by simp
  also have "\<dots> = ?x"
    by (rule arg_cong [where f = "(*) (real_of_int m)", OF q [symmetric]])
  finally show ?thesis
    by (simp add: isDouble_def)
qed

text \<open>
  Two places where the rounding shows: the double nearest to \<open>0.3\<close>, times 30, rounds up to
  9; the doubles nearest to \<open>250.1\<close> and \<open>0.1\<close> differ by less than 250, and the
  difference rounds up to 250.
\<close>

lemma random_rounds_product: "random (roundDouble (3 / 10)) 0 29 = 9"
  by (simp add: random_def roundDouble_def ulp_def exponent_def roundHalfEven_def compute_bitlen)

lemma elapsedTicks_rounds_difference:
  "elapsedTicks (roundDouble (2501 / 10)) (Some (roundDouble (1 / 10))) = Some 1"
  by (simp add: elapsedTicks_def roundDouble_def ulp_def exponent_def roundHalfEven_def compute_bitlen)

lemma roundDouble_examples [simp]:
  "roundDouble (15 / 4) = 15 / 4" "roundDouble (15 / 2) = 15 / 2"
  "roundDouble (1 / 2) = 1 / 2" "roundDouble (1 / 4) = 1 / 4" "roundDouble (1 / 8) = 1 / 8"
  "\<lfloor>roundDouble (2 / 5)\<rfloor> = 0"
  by (simp_all add: roundDouble_def ulp_def exponent_def roundHalfEven_def compute_bitlen)

lemma sampleSeq_unit: "isDouble (sampleSeq n) \<and> 0 \<le> sampleSeq n \<and> sampleSeq n < 1"
  by (simp add: sampleSeq_def isDouble_def)

lemma updateFood_loop_Some_aux:
  assumes "updateFood_loop g i = Some res"
  shows "sampledAt g i res"
proof (rule updateFood_loop.raw_induct [OF _ assms])
  fix rec g i res
  assume IH: "\<And>g i res. rec g i = Some res \<Longrightarrow> sampledAt g i res"
    and eq: "(if blockExist g (random (rnd g i) 0 (rows - 1)) (random (rnd g (i + 1)) 0 (cols - 1))
              then rec g (i + 2)
              else Some (random (rnd g i) 0 (rows - 1), random (rnd g (i + 1)) 0 (cols - 1), i + 2))
             = Some res"
  show "sampledAt g i res"
  proof (cases "blockExist g (random (rnd g i) 0 (rows - 1)) (random (rnd g (i + 1)) 0 (cols - 1))")
    case True
    with eq have "rec g (i + 2) = Some res"
      by simp
    then have "sampledAt g (i + 2) res"
      by (rule IH)
    then show ?thesis
      unfolding sampledAt_def by (meson add_leD1)
  next
    case False
    with eq show ?thesis
      by (auto simp: sampledAt_def)
  qed
qed

lemma updateFood_loop_Some:
  "updateFood_loop g i = Some (x, y, j) \<Longrightarrow>
     \<not> blockExist g x y \<and>
     (\<exists>k\<ge>i. j = k + 2 \<and> x = random (rnd g k) 0 (rows - 1) \<and> y = random (rnd g (k + 1)) 0 (cols - 1))"
  using updateFood_loop_Some_aux [of g i "(x, y, j)"] by (simp add: sampledAt_def)


lemma updateFood_main:
  "updateFood (main sampleSeq) = Some ((main sampleSeq)\<lparr>food := new_Food 3 7, rndPos := 4\<rparr>)"
  by (simp add: updateFood_def updateFood_loop.simps main_def updateScores_def drawFrame_def
      emit_def blockExist_def new_Snake_def new_Food_def new_Block_def random_def sampleSeq_def
      rows_def cols_def kDx_def kDy_def verse_simps)

lemma linked_Nil [simp]: "linked []"
  by (simp add: linked_def)

lemma linked_single [simp]: "linked [b]"
  by (simp add: linked_def)

lemma linked_Cons2 [simp]: "linked (a # b # bs) \<longleftrightarrow> adjacent a b \<and> linked (b # bs)"
proof
  assume c: "linked (a # b # bs)"
  have "adjacent a b"
    using c [unfolded linked_def, rule_format, of 0] by simp
  moreover have "adjacent ((b # bs) ! i) ((b # bs) ! (i + 1))" if "i + 1 < length (b # bs)" for i
    using c [unfolded linked_def, rule_format, of "Suc i"] that by simp
  ultimately show "adjacent a b \<and> linked (b # bs)"
    by (simp add: linked_def)
next
  assume c: "adjacent a b \<and> linked (b # bs)"
  show "linked (a # b # bs)"
    unfolding linked_def
  proof (intro allI impI)
    fix i
    assume "i + 1 < length (a # b # bs)"
    then show "adjacent ((a # b # bs) ! i) ((a # b # bs) ! (i + 1))"
      using c [unfolded linked_def] by (cases i) auto
  qed
qed

lemma linked_butlast: "linked bs \<Longrightarrow> linked (butlast bs)"
  by (auto simp: linked_def nth_butlast)

lemma adjacent_recolor [simp]:
  "adjacent (a\<lparr>color := c\<rparr>) b = adjacent a b" "adjacent a (b\<lparr>color := c\<rparr>) = adjacent a b"
  by (simp_all add: adjacent_def)

lemma linked_recolor_head:
  "linked (b\<lparr>color := c\<rparr> # bs) = linked (b # bs)"
  by (cases bs) simp_all

lemma adjacent_step:
  "adjacent (new_Block (px b + kDx ! dirCode d) (py b + kDy ! dirCode d) c) b"
  by (cases d) (simp_all add: adjacent_def new_Block_def kDx_def kDy_def)

lemma linked_new_Snake: "linked (body (new_Snake x y d))"
  by (cases d) (simp_all add: new_Snake_def new_Block_def adjacent_def verse_simps kDx_def kDy_def)

lemma extend_Inr_body:
  assumes "extend s = Inr s'"
  obtains b bs where "body s = b # bs"
    "s' = s\<lparr>body := new_Block (px b + kDx ! dirCode (direction s))
                                (py b + kDy ! dirCode (direction s)) snakeHeadColor
                      # b\<lparr>color := snakeBodyColor\<rparr> # bs,
              lastMove := direction s\<rparr>"
proof (cases "body s")
  case Nil
  with assms show ?thesis by (simp add: extend_def next_pos_def)
next
  case (Cons b bs)
  with assms extend_Cons [OF Cons] that show ?thesis by simp
qed

lemma move_Inr_body:
  assumes "move s = Inr s'"
  obtains b bs where "body s = b # bs"
    "s' = s\<lparr>body := new_Block (px b + kDx ! dirCode (direction s))
                                (py b + kDy ! dirCode (direction s)) snakeHeadColor
                      # butlast (b\<lparr>color := snakeBodyColor\<rparr> # bs),
              lastMove := direction s\<rparr>"
proof (cases "body s")
  case Nil
  with assms show ?thesis by (simp add: move_def extend_def next_pos_def)
next
  case (Cons b bs)
  with assms move_Cons [OF Cons] that show ?thesis by simp
qed

lemma linked_extend:
  assumes "linked (body s)" "extend s = Inr s'"
  shows "linked (body s')"
proof -
  from assms(2) obtain b bs where b: "body s = b # bs"
    and s': "s' = s\<lparr>body := new_Block (px b + kDx ! dirCode (direction s))
                                (py b + kDy ! dirCode (direction s)) snakeHeadColor
                      # b\<lparr>color := snakeBodyColor\<rparr> # bs,
              lastMove := direction s\<rparr>"
    by (rule extend_Inr_body)
  show ?thesis
    using assms(1) by (simp add: s' b adjacent_step linked_recolor_head)
qed

lemma linked_move:
  assumes "linked (body s)" "move s = Inr s'"
  shows "linked (body s')"
proof -
  from assms(2) obtain s1 where e: "extend s = Inr s1" and s': "s' = s1\<lparr>body := butlast (body s1)\<rparr>"
    by (auto simp: move_def split: sum.splits)
  from linked_extend [OF assms(1) e] show ?thesis
    by (simp add: s' linked_butlast)
qed

lemma updateFood_Some:
  assumes "updateFood g = Some g'"
  obtains x y j where "g' = g\<lparr>food := (food g)\<lparr>px := x, py := y\<rparr>, rndPos := j\<rparr>"
    "\<not> blockExist g x y"
    "\<exists>k. x = random (rnd g k) 0 (rows - 1) \<and> y = random (rnd g (k + 1)) 0 (cols - 1)"
proof -
  from assms obtain x y j where
    l: "updateFood_loop g (rndPos g) = Some (x, y, j)" and
    g': "g' = g\<lparr>food := (food g)\<lparr>px := x, py := y\<rparr>, rndPos := j\<rparr>"
    by (auto simp: updateFood_def split: option.splits)
  from updateFood_loop_Some [OF l] g' that show ?thesis
    by blast
qed

lemma tick_Returns_cases:
  assumes "tick g = Returns (f, g')"
  obtains
    (eat) g4 s' where "eatFood (snake g) (food g) = Inr True"
      "updateFood (updateScores (g\<lparr>score := score g + 1,
                                    highestScore := max (score g + 1) (highestScore g)\<rparr>)) = Some g4"
      "extend (snake g4) = Inr s'" "f = Continue" "g' = drawFrame (g4\<lparr>snake := s'\<rparr>)"
  | (move) s' where "eatFood (snake g) (food g) = Inr False" "checkMove (snake g) = Inr True"
      "move (snake g) = Inr s'" "f = Continue" "g' = drawFrame (g\<lparr>snake := s'\<rparr>)"
  | (over) "eatFood (snake g) (food g) = Inr False" "checkMove (snake g) = Inr False"
      "f = Return" "g' = alert (g\<lparr>gameStatus := End\<rparr>)"
  using assms unfolding tick_def
  by (auto simp: Let_def split: sum.splits bool.splits option.splits)

lemma cell_new_Block [simp]: "cell (new_Block x y c) = (x, y)"
  by (simp add: cell_def new_Block_def)

lemma cell_recolor [simp]: "cell (b\<lparr>color := c\<rparr>) = cell b"
  by (simp add: cell_def)

lemma eatFood_True:
  "eatFood s fd = Inr True \<Longrightarrow> next_pos s = Inr (cell fd)"
  by (auto simp: eatFood_def cell_def split: sum.splits prod.splits if_splits)

lemma eatFood_False:
  "eatFood s fd = Inr False \<Longrightarrow> \<exists>p. next_pos s = Inr p \<and> p \<noteq> cell fd"
  by (auto simp: eatFood_def cell_def split: sum.splits prod.splits if_splits)

lemma effect_fields [simp]:
  "snake (emit e g) = snake g" "food (emit e g) = food g" "start (emit e g) = start g"
  "prevTime (emit e g) = prevTime g" "gameStatus (emit e g) = gameStatus g"
  "score (emit e g) = score g" "highestScore (emit e g) = highestScore g"
  "rnd (emit e g) = rnd g" "rndPos (emit e g) = rndPos g"
  "effects (emit e g) = effects g @ [e]"
  by (simp_all add: emit_def)

lemmas page_defs = updateScores_def drawFrame_def alert_def requestAnimationFrame_def

lemma sound_tick:
  assumes "sound g" "tick g = Returns (f, g')"
  shows "sound g'"
  using assms(2)
proof (cases rule: tick_Returns_cases)
  case (eat g4 s')
  let ?g3 = "updateScores (g\<lparr>score := score g + 1,
                                highestScore := max (score g + 1) (highestScore g)\<rparr>)"
  from eat(2) obtain x y j where
    g4: "g4 = ?g3\<lparr>food := (food ?g3)\<lparr>px := x, py := y\<rparr>, rndPos := j\<rparr>"
    and free: "\<not> blockExist ?g3 x y"
    by (rule updateFood_Some)
  have sn: "snake g4 = snake g"
    by (simp add: g4 page_defs)
  from eat(3) sn obtain b bs where b: "body (snake g) = b # bs"
    and s': "s' = (snake g)\<lparr>body := new_Block (px b + kDx ! dirCode (direction (snake g)))
                                (py b + kDy ! dirCode (direction (snake g))) snakeHeadColor
                      # b\<lparr>color := snakeBodyColor\<rparr> # bs,
              lastMove := direction (snake g)\<rparr>"
    by (metis extend_Inr_body)
  from eatFood_True [OF eat(1)] b
  have nx: "(px b + kDx ! dirCode (direction (snake g)), py b + kDy ! dirCode (direction (snake g))) = cell (food g)"
    by (simp add: next_pos_Cons)
  from free have f1: "(x, y) \<noteq> cell (food g)" and f2: "(x, y) \<notin> cell ` set (body (snake g))"
    by (simp_all add: blockExist_iff page_defs)
  have "linked (body s')"
    using assms(1) eat(3) sn by (auto simp: sound_def intro: linked_extend)
  moreover have "2 \<le> length (body s')"
    by (simp add: s')
  moreover have "foodFree g'"
  proof -
    have "cell (food g') = (x, y)"
      by (simp add: eat(5) page_defs g4 cell_def)
    moreover have "cell ` set (body (snake g')) = insert (cell (food g)) (cell ` set (body (snake g)))"
      by (simp add: eat(5) page_defs s' b nx)
    ultimately show ?thesis
      using f1 f2 by (simp add: foodFree_def)
  qed
  ultimately show ?thesis
    by (simp add: sound_def eat(5) page_defs)
next
  case (move s')
  from move(3) obtain b bs where b: "body (snake g) = b # bs"
    and s': "s' = (snake g)\<lparr>body := new_Block (px b + kDx ! dirCode (direction (snake g)))
                                (py b + kDy ! dirCode (direction (snake g))) snakeHeadColor
                      # butlast (b\<lparr>color := snakeBodyColor\<rparr> # bs),
              lastMove := direction (snake g)\<rparr>"
    by (rule move_Inr_body)
  from eatFood_False [OF move(1)] b
  have nx: "(px b + kDx ! dirCode (direction (snake g)), py b + kDy ! dirCode (direction (snake g))) \<noteq> cell (food g)"
    by (simp add: next_pos_Cons)
  have "linked (body s')"
    using assms(1) move(3) by (auto simp: sound_def intro: linked_move)
  moreover have "2 \<le> length (body s')"
    using assms(1) by (cases bs) (simp_all add: s' sound_def b)
  moreover have "cell (food g) \<notin> cell ` set (butlast (b\<lparr>color := snakeBodyColor\<rparr> # bs))"
  proof
    assume "cell (food g) \<in> cell ` set (butlast (b\<lparr>color := snakeBodyColor\<rparr> # bs))"
    then obtain c where c: "c \<in> set (butlast (b\<lparr>color := snakeBodyColor\<rparr> # bs))" "cell c = cell (food g)"
      by auto
    from c(1) have "c \<in> set (b\<lparr>color := snakeBodyColor\<rparr> # bs)"
      by (rule in_set_butlastD)
    then have "cell c \<in> cell ` set (b # bs)"
      by (auto simp: cell_def)
    with c(2) assms(1) b show False
      by (simp add: sound_def foodFree_def)
  qed
  then have "foodFree g'"
    using nx by (auto simp: foodFree_def move(5) page_defs s')
  ultimately show ?thesis
    by (simp add: sound_def move(5) page_defs)
next
  case over
  with assms(1) show ?thesis
    by (simp add: sound_def foodFree_def page_defs)
qed

lemma sound_cong:
  "body (snake g') = body (snake g) \<Longrightarrow> food g' = food g \<Longrightarrow> sound g' = sound g"
  by (simp add: sound_def foodFree_def)

lemma sound_ticks_loop:
  "sound g \<Longrightarrow> ticks_loop n g = Returns (f, g') \<Longrightarrow> sound g'"
proof (induction n arbitrary: g)
  case 0
  then show ?case by simp
next
  case (Suc n)
  from Suc.prems(2) show ?case
  proof (cases "tick g")
    case (Returns r)
    obtain f1 g1 where r: "r = (f1, g1)" by (cases r)
    have s1: "sound g1"
      using Suc.prems(1) Returns r by (auto intro: sound_tick)
    show ?thesis
    proof (cases f1)
      case Continue
      with Suc.prems(2) Returns r have "ticks_loop n g1 = Returns (f, g')" by simp
      with s1 show ?thesis by (rule Suc.IH)
    next
      case Return
      with Suc.prems(2) Returns r s1 show ?thesis by simp
    qed
  qed simp_all
qed

lemma sound_reset: "sound (g\<lparr>snake := new_Snake 10 10 kRight, food := new_Food 15 15\<rparr>)"
  by (simp add: sound_def foodFree_def new_Snake_def new_Food_def new_Block_def cell_def
      adjacent_def kDx_def kDy_def verse_simps)

lemma sound_resetGame: "sound (resetGame g)"
  using sound_reset [of g]
  by (simp add: resetGame_def sound_def foodFree_def)

lemma sound_initGame: "sound (initGame g)"
  using sound_resetGame [of g]
  by (simp add: initGame_def page_defs sound_def foodFree_def)

lemma sound_main: "sound (main r)"
  by (simp add: main_def page_defs sound_def foodFree_def new_Snake_def new_Food_def new_Block_def cell_def
      adjacent_def kDx_def kDy_def verse_simps)

lemma body_onKeyDown [simp]: "body (onKeyDown k s) = body s"
  by (simp add: onKeyDown_def updateDirection_def split: option.splits)

lemma body_onKeyDown_funpow [simp]: "body ((onKeyDown k ^^ n) s) = body s"
  by (induction n) simp_all

lemma sound_rebase [simp]: "sound (rebase t g) = sound g"
  by (simp add: rebase_def sound_def foodFree_def)

lemma sound_loop:
  assumes "sound g" "loop t g = Returns g'"
  shows "sound g'"
proof (cases "gameStatus g = End \<or> gameStatus g = Pause")
  case True
  with assms show ?thesis by (simp add: loop_def)
next
  case False
  let ?n = "rounds (elapsedTicks t (prevTime (rebase t g)))"
  from False assms(2) obtain f g2 where
    l: "ticks_loop ?n (rebase t g) = Returns (f, g2)"
    and g': "g' = g2 \<or> g' = requestAnimationFrame g2
              \<or> g' = requestAnimationFrame (g2\<lparr>prevTime := Some t\<rparr>)"
    by (auto simp: loop_def Let_def split: outcome.splits flow.splits if_splits)
  have "sound (rebase t g)"
    using assms(1) by simp
  then have "sound g2"
    using l by (rule sound_ticks_loop)
  with g' show ?thesis
    by (auto simp: sound_def foodFree_def page_defs)
qed

lemma sound_fresh:
  "body (snake g') = body (new_Snake 10 10 kRight) \<Longrightarrow> food g' = new_Food 15 15 \<Longrightarrow> sound g'"
  using sound_reset [of g'] by (simp add: sound_def foodFree_def)

lemma sound_keepsOrResets: "sound g \<Longrightarrow> keepsOrResets g g' \<Longrightarrow> sound g'"
  unfolding keepsOrResets_def using sound_cong sound_fresh by blast

lemma resetGame_fields [simp]:
  "snake (resetGame g) = new_Snake 10 10 kRight" "food (resetGame g) = new_Food 15 15"
  "score (resetGame g) = 0" "highestScore (resetGame g) = highestScore g"
  "gameStatus (resetGame g) = gameStatus g" "effects (resetGame g) = effects g"
  by (simp_all add: resetGame_def)

lemma initGame_fields [simp]:
  "snake (initGame g) = new_Snake 10 10 kRight" "food (initGame g) = new_Food 15 15"
  "score (initGame g) = 0" "highestScore (initGame g) = highestScore g"
  "gameStatus (initGame g) = gameStatus g"
  by (simp_all add: initGame_def page_defs)

lemma click_keepsOrResets:
  "keepsOrResets g (onStart g)" "keepsOrResets g (onPause g)" "keepsOrResets g (onResume g)"
  "keepsOrResets g (onRestart g)" "keepsOrResets g (onEnd g)" "keepsOrResets g (onKey k g)"
  by (simp_all add: keepsOrResets_def onStart_def onPause_def onResume_def onRestart_def onEnd_def
      onKey_def Let_def bindKeys_def unbindKeys_def page_defs)

lemma sound_handle:
  assumes "sound g" "handle e g = Returns g'"
  shows "sound g'"
proof (cases e)
  case (Frame t)
  with assms show ?thesis by (auto intro: sound_loop)
qed (use assms click_keepsOrResets [of g] in \<open>auto intro: sound_keepsOrResets\<close>)

lemma sound_reachable: "reachable g \<Longrightarrow> sound g"
  by (induction rule: reachable.induct) (auto intro: sound_main sound_handle)

lemma ticks_loop_unfold:
  "0 < n \<Longrightarrow>
     ticks_loop n g =
       (case tick g of
          Diverges \<Rightarrow> Diverges
        | Raises e \<Rightarrow> Raises e
        | Returns (Return, g') \<Rightarrow> Returns (Return, g')
        | Returns (Continue, g') \<Rightarrow> ticks_loop (n - 1) g')"
  by (cases n) (auto split: outcome.splits flow.splits)

lemmas run_defs =
  main_def onStart_def onPause_def onResume_def onRestart_def onEnd_def onKey_def
  resetGame_def initGame_def loop_def rebase_def elapsedTicks_def rounds_def atLeastOne_def
  tick_def updateFood_def blockExist_def random_def
  eatFood_def checkMove_def extend_def move_def next_pos_def updateDirection_def
  onKeyDown_def keyDirection_def bindKeys_def unbindKeys_def
  new_Snake_def new_Food_def new_Block_def page_defs emit_def
  kDx_def kDy_def rows_def cols_def verse_simps sampleSeq_def
  snakeHeadColor_def snakeBodyColor_def foodColor_def

lemma run_demo: "run demoEvents (main sampleSeq) = Returns demoGame"
  unfolding demoEvents_def demoGame_def
  by (simp add: run_defs ticks_loop_unfold checkMove_from.simps updateFood_loop.simps Let_def drop_bit_eq_div)

lemma reachable_run:
  "reachable g \<Longrightarrow> run es g = Returns g' \<Longrightarrow> reachable g'"
proof (induction es arbitrary: g)
  case Nil
  then show ?case by simp
next
  case (Cons e es)
  from Cons.prems(2) obtain g1 where h: "handle e g = Returns g1" and r: "run es g1 = Returns g'"
    by (auto split: outcome.splits)
  from Cons.prems(1) h have "reachable g1"
    by (rule reachable_step)
  then show ?case
    using r by (rule Cons.IH)
qed

lemma reachable_demoGame: "reachable demoGame"
  using reachable_main run_demo by (rule reachable_run)

lemma tick_eat_shape:
  assumes "eatFood (snake g) (food g) = Inr True" "tick g = Returns (f, g')"
  obtains x y b bs where
    "body (snake g) = b # bs"
    "body (snake g') = new_Block (px (food g)) (py (food g)) snakeHeadColor
                         # b\<lparr>color := snakeBodyColor\<rparr> # bs"
    "food g' = (food g)\<lparr>px := x, py := y\<rparr>"
    "(x, y) \<noteq> cell (food g)" "(x, y) \<notin> cell ` set (body (snake g))"
  using assms(2)
proof (cases rule: tick_Returns_cases)
  case (eat g4 s')
  let ?g3 = "updateScores (g\<lparr>score := score g + 1,
                                highestScore := max (score g + 1) (highestScore g)\<rparr>)"
  from eat(2) obtain x y j where
    g4: "g4 = ?g3\<lparr>food := (food ?g3)\<lparr>px := x, py := y\<rparr>, rndPos := j\<rparr>"
    and free: "\<not> blockExist ?g3 x y"
    by (rule updateFood_Some)
  have sn: "snake g4 = snake g"
    by (simp add: g4 page_defs)
  from eat(3) sn obtain b bs where b: "body (snake g) = b # bs"
    and s': "s' = (snake g)\<lparr>body := new_Block (px b + kDx ! dirCode (direction (snake g)))
                                (py b + kDy ! dirCode (direction (snake g))) snakeHeadColor
                      # b\<lparr>color := snakeBodyColor\<rparr> # bs,
              lastMove := direction (snake g)\<rparr>"
    by (metis extend_Inr_body)
  from eatFood_True [OF assms(1)] b
  have nx: "px b + kDx ! dirCode (direction (snake g)) = px (food g)"
           "py b + kDy ! dirCode (direction (snake g)) = py (food g)"
    by (simp_all add: next_pos_Cons cell_def)
  from free have "(x, y) \<noteq> cell (food g)" "(x, y) \<notin> cell ` set (body (snake g))"
    by (simp_all add: blockExist_iff page_defs)
  moreover have "body (snake g') = new_Block (px (food g)) (py (food g)) snakeHeadColor
                         # b\<lparr>color := snakeBodyColor\<rparr> # bs"
    by (simp add: eat(5) page_defs s' nx)
  moreover have "food g' = (food g)\<lparr>px := x, py := y\<rparr>"
    by (simp add: eat(5) page_defs g4)
  ultimately show ?thesis
    using that b by blast
next
  case (move s')
  with assms(1) show ?thesis by simp
next
  case over
  with assms(1) show ?thesis by simp
qed

lemma tick_aboutToEat: "tick aboutToEat = Returns (Continue, justAte)"
  unfolding aboutToEat_def justAte_def demoGame_def
  by (simp add: run_defs updateFood_loop.simps Let_def)

lemma eatFood_aboutToEat: "eatFood (snake aboutToEat) (food aboutToEat) = Inr True"
  unfolding aboutToEat_def by (simp add: run_defs)

lemma ticks_loop_rel:
  assumes refl: "\<And>g. R g g"
    and trans: "\<And>a b c. R a b \<Longrightarrow> R b c \<Longrightarrow> R a c"
    and step: "\<And>g f g'. tick g = Returns (f, g') \<Longrightarrow> R g g'"
  shows "ticks_loop n g = Returns (f, g') \<Longrightarrow> R g g'"
proof (induction n arbitrary: g)
  case 0
  then show ?case by (simp add: refl)
next
  case (Suc n)
  from Suc.prems show ?case
  proof (cases "tick g")
    case (Returns r)
    obtain f1 g1 where r: "r = (f1, g1)" by (cases r)
    have s1: "R g g1"
      using Returns r by (auto intro: step)
    show ?thesis
    proof (cases f1)
      case Continue
      with Suc.prems Returns r have "ticks_loop n g1 = Returns (f, g')" by simp
      then have "R g1 g'" by (rule Suc.IH)
      with s1 show ?thesis by (rule trans)
    next
      case Return
      with Suc.prems Returns r s1 show ?thesis by simp
    qed
  qed simp_all
qed

lemma updateFood_fields:
  assumes "updateFood g = Some g'"
  shows "snake g' = snake g" "score g' = score g" "highestScore g' = highestScore g"
    "gameStatus g' = gameStatus g" "effects g' = effects g" "start g' = start g"
    "prevTime g' = prevTime g" "rnd g' = rnd g"
  using assms by (auto elim!: updateFood_Some)

lemma tick_eat_scores:
  assumes "eatFood (snake g) (food g) = Inr True" "tick g = Returns (f, g')"
  shows "score g' = score g + 1 \<and> highestScore g' = max (score g + 1) (highestScore g)"
  using assms(2)
proof (cases rule: tick_Returns_cases)
  case (eat g4 s')
  from updateFood_fields(2,3) [OF eat(2)] show ?thesis
    by (simp add: eat(5) page_defs)
qed (use assms(1) in simp_all)

lemma highestScore_tick:
  assumes "tick g = Returns (f, g')"
  shows "highestScore g \<le> highestScore g'"
  using assms
proof (cases rule: tick_Returns_cases)
  case (eat g4 s')
  with tick_eat_scores [OF eat(1) assms] show ?thesis by simp
qed (simp_all add: page_defs)

lemma highestScore_ticks_loop:
  "ticks_loop n g = Returns (f, g') \<Longrightarrow> highestScore g \<le> highestScore g'"
  by (rule ticks_loop_rel [where R = "\<lambda>a b. highestScore a \<le> highestScore b"])
     (auto intro: highestScore_tick)

lemma highestScore_rebase [simp]: "highestScore (rebase t g) = highestScore g"
  by (simp add: rebase_def)

lemma highestScore_loop:
  assumes "loop t g = Returns g'"
  shows "highestScore g \<le> highestScore g'"
proof (cases "gameStatus g = End \<or> gameStatus g = Pause")
  case True
  with assms show ?thesis by (simp add: loop_def)
next
  case False
  let ?n = "rounds (elapsedTicks t (prevTime (rebase t g)))"
  from False assms obtain f g2 where
    l: "ticks_loop ?n (rebase t g) = Returns (f, g2)"
    and g': "g' = g2 \<or> g' = requestAnimationFrame g2
              \<or> g' = requestAnimationFrame (g2\<lparr>prevTime := Some t\<rparr>)"
    by (auto simp: loop_def Let_def split: outcome.splits flow.splits if_splits)
  from highestScore_ticks_loop [OF l] g' show ?thesis
    by (auto simp: page_defs)
qed

lemma highestScore_clicks [simp]:
  "highestScore (onStart g) = highestScore g" "highestScore (onPause g) = highestScore g"
  "highestScore (onResume g) = highestScore g" "highestScore (onRestart g) = highestScore g"
  "highestScore (onEnd g) = highestScore g" "highestScore (onKey k g) = highestScore g"
  by (simp_all add: onStart_def onPause_def onResume_def onRestart_def onEnd_def onKey_def
      Let_def page_defs)

lemma highestScore_handle:
  assumes "handle e g = Returns g'"
  shows "highestScore g \<le> highestScore g'"
proof (cases e)
  case (Frame t)
  with assms show ?thesis by (auto intro: highestScore_loop)
qed (use assms in auto)

lemma highestScore_run:
  "run es g = Returns g' \<Longrightarrow> highestScore g \<le> highestScore g'"
proof (induction es arbitrary: g)
  case Nil
  then show ?case by simp
next
  case (Cons e es)
  from Cons.prems obtain g1 where h: "handle e g = Returns g1" and r: "run es g1 = Returns g'"
    by (auto split: outcome.splits)
  from highestScore_handle [OF h] Cons.IH [OF r] show ?case
    by simp
qed

lemma ticks_loop_add:
  "ticks_loop (a + b) g =
     (case ticks_loop a g of
        Returns (Continue, g') \<Rightarrow> ticks_loop b g'
      | r \<Rightarrow> r)"
  by (induction a arbitrary: g) (auto split: outcome.splits flow.splits)

lemma tick_over:
  "eatFood (snake g) (food g) = Inr False \<Longrightarrow> checkMove (snake g) = Inr False \<Longrightarrow>
     tick g = Returns (Return, alert (g\<lparr>gameStatus := End\<rparr>))"
  by (simp add: tick_def)

lemma effects_tick_Continue:
  assumes "tick g = Returns (Continue, g')"
  shows "\<exists>es. effects g' = effects g @ es \<and> Alert \<notin> set es \<and> RequestFrame \<notin> set es"
  using assms
proof (cases rule: tick_Returns_cases)
  case (eat g4 s')
  from updateFood_fields(5) [OF eat(2)] show ?thesis
    by (simp add: eat(5) page_defs)
next
  case (move s')
  then show ?thesis by (simp add: page_defs)
qed simp

lemma effects_ticks_loop_Continue:
  "ticks_loop n g = Returns (Continue, g') \<Longrightarrow>
     \<exists>es. effects g' = effects g @ es \<and> Alert \<notin> set es \<and> RequestFrame \<notin> set es"
proof (induction n arbitrary: g)
  case 0
  then show ?case by simp
next
  case (Suc n)
  from Suc.prems obtain g1 where t: "tick g = Returns (Continue, g1)"
    and l: "ticks_loop n g1 = Returns (Continue, g')"
    by (auto split: outcome.splits flow.splits)
  from effects_tick_Continue [OF t] obtain es1 where
    e1: "effects g1 = effects g @ es1" "Alert \<notin> set es1" "RequestFrame \<notin> set es1"
    by blast
  from Suc.IH [OF l] obtain es2 where
    e2: "effects g' = effects g1 @ es2" "Alert \<notin> set es2" "RequestFrame \<notin> set es2"
    by blast
  from e1 e2 have "effects g' = effects g @ (es1 @ es2) \<and> Alert \<notin> set (es1 @ es2)
      \<and> RequestFrame \<notin> set (es1 @ es2)"
    by simp
  then show ?case by blast
qed

lemma loop_ended: "gameStatus g = End \<Longrightarrow> loop t g = Returns g"
  by (simp add: loop_def)

lemma tick_nearWall: "ticks_loop 1 (rebase 5250 nearWall) = Returns (Continue, atWall)"
  unfolding nearWall_def atWall_def
  by (simp add: run_defs checkMove_from.simps Let_def)

lemma run_resumed: "run resumeEvents (main sampleSeq) = Returns resumed"
  unfolding resumeEvents_def resumed_def
  by (simp add: run_defs Let_def)

lemma run_firstFrameDone: "run [ClickStart, Frame 1000] (main sampleSeq) = Returns firstFrameDone"
  unfolding firstFrameDone_def
  by (simp add: run_defs Let_def)

lemma loop_resumed:
  "loop 1100 resumed =
     Returns (requestAnimationFrame (resumed\<lparr>start := Some 1100, prevTime := Some 1100\<rparr>))"
  unfolding resumed_def
  by (simp add: loop_def rebase_def elapsedTicks_def rounds_def atLeastOne_def)

lemma snakeState_body: "snakeState s \<Longrightarrow> 2 \<le> length (body s) \<and> linked (body s)"
proof (induction rule: snakeState.induct)
  case (snake_new x y d)
  show ?case
    using linked_new_Snake [of x y d] by (simp add: new_Snake_def)
next
  case (snake_extend s s')
  from snake_extend.hyps(2) obtain b bs where "body s = b # bs"
    "s' = s\<lparr>body := new_Block (px b + kDx ! dirCode (direction s))
                                (py b + kDy ! dirCode (direction s)) snakeHeadColor
                      # b\<lparr>color := snakeBodyColor\<rparr> # bs,
              lastMove := direction s\<rparr>"
    by (rule extend_Inr_body)
  then have "2 \<le> length (body s')" by simp
  with snake_extend linked_extend show ?case by blast
next
  case (snake_move s s')
  from snake_move.hyps(2) obtain b bs where b: "body s = b # bs"
    and s': "s' = s\<lparr>body := new_Block (px b + kDx ! dirCode (direction s))
                                (py b + kDy ! dirCode (direction s)) snakeHeadColor
                      # butlast (b\<lparr>color := snakeBodyColor\<rparr> # bs),
              lastMove := direction s\<rparr>"
    by (rule move_Inr_body)
  have "2 \<le> length (body s')"
    using snake_move.IH by (cases bs) (simp_all add: s' b)
  with snake_move linked_move show ?case by blast
next
  case (snake_turn s d)
  then show ?case by (simp add: updateDirection_def)
next
  case (snake_bind s)
  then show ?case by (simp add: bindKeys_def)
next
  case (snake_unbind s)
  then show ?case by (simp add: unbindKeys_def)
qed

lemma snakeState_nonempty: "snakeState s \<Longrightarrow> body s \<noteq> []"
  using snakeState_body [of s] by auto

text \<open>
  No callback throws in a state the game can reach: the body is never empty there. A
  callback returns or, when the food loop never ends, does not return.
\<close>

lemma tick_no_raise:
  assumes "body (snake g) \<noteq> []"
  shows "tick g \<noteq> Raises err"
proof -
  from assms obtain b bs where b: "body (snake g) = b # bs"
    by (cases "body (snake g)") auto
  have u: "body (snake g4) = b # bs" if "updateFood g3 = Some g4" "snake g3 = snake g" for g3 g4
    using updateFood_fields(1) [OF that(1)] that(2) b by simp
  show ?thesis
    using b
    by (auto simp: tick_def Let_def eatFood_def checkMove_def next_pos_Cons move_Cons
        extend_Cons [OF u] page_defs
        split: option.splits sum.splits bool.splits if_splits)
qed

lemma ticks_loop_no_raise:
  "sound g \<Longrightarrow> ticks_loop n g \<noteq> Raises err"
proof (induction n arbitrary: g)
  case 0
  then show ?case by simp
next
  case (Suc n)
  from Suc.prems have ne: "body (snake g) \<noteq> []"
    by (auto simp: sound_def)
  show ?case
  proof (cases "tick g")
    case Diverges
    then show ?thesis by simp
  next
    case (Raises e)
    with tick_no_raise [OF ne] show ?thesis by simp
  next
    case (Returns r)
    obtain f1 g1 where r: "r = (f1, g1)" by (cases r)
    from Suc.prems Returns r have "sound g1"
      by (auto intro: sound_tick)
    from Suc.IH [OF this] Returns r show ?thesis
      by (cases f1) simp_all
  qed
qed

lemma reachable_no_raise:
  assumes "reachable g"
  shows "handle e g \<noteq> Raises err"
proof (cases e)
  case (Frame t)
  have "sound (rebase t g)"
    using sound_reachable [OF assms] by simp
  from ticks_loop_no_raise [OF this] Frame show ?thesis
    by (auto simp: loop_def Let_def split: outcome.splits flow.splits)
qed simp_all

section \<open>The snake\<close>

subsection \<open>Collision test\<close>

text \<open>
  C2, as stated: \<open>checkMove\<close> returns false if and only if the next cell is the cell of a
  body segment at index 4 or later. This fails: on the right edge, facing right, a
  two-segment snake cannot move although it has no segment at index 4.
\<close>

theorem checkMove_iff_counterexample:
  "\<not> (checkMove (new_Snake 29 10 kRight) = Inr False \<longleftrightarrow> hitsFromIndex4 (new_Snake 29 10 kRight))"
  by (simp add: checkMove_def hitsFromIndex4_def new_Snake_def next_pos_def new_Block_def
      kDx_def kDy_def rows_def cols_def)

text \<open>
  C2, amended: \<open>checkMove\<close> returns false if and only if the next cell is outside the grid
  or is the cell of a body segment at index 4 or later. Segments at indices 0 to 3 never
  make it return false: the result depends on the next cell and on the segments from
  index 4 on only.
\<close>

theorem checkMove_false_iff:
  assumes "next_pos s = Inr (x, y)"
  shows "(checkMove s = Inr False \<longleftrightarrow>
            (x < 0 \<or> x \<ge> rows \<or> y < 0 \<or> y \<ge> cols) \<or>
            (\<exists>i. 4 \<le> i \<and> i < length (body s) \<and> px (body s ! i) = x \<and> py (body s ! i) = y))
       \<and> (\<forall>s'. next_pos s' = next_pos s \<and> drop 4 (body s') = drop 4 (body s)
                \<longrightarrow> checkMove s' = checkMove s)"
proof
  show "checkMove s = Inr False \<longleftrightarrow>
            (x < 0 \<or> x \<ge> rows \<or> y < 0 \<or> y \<ge> cols) \<or>
            (\<exists>i. 4 \<le> i \<and> i < length (body s) \<and> px (body s ! i) = x \<and> py (body s ! i) = y)"
    using assms by (auto simp: checkMove_def checkMove_from_iff)
  show "\<forall>s'. next_pos s' = next_pos s \<and> drop 4 (body s') = drop 4 (body s)
                \<longrightarrow> checkMove s' = checkMove s"
    using assms by (simp add: checkMove_def checkMove_from_drop)
qed

theorem checkMove_false_iff_witness:
  "next_pos (new_Snake 29 10 kRight) = Inr (30, 10) \<and>
   checkMove (new_Snake 29 10 kRight) = Inr False \<and>
   checkMove (new_Snake 29 10 kRight\<lparr>body := body (new_Snake 29 10 kRight) @ [new_Block 30 10 snakeBodyColor]\<rparr>) = Inr False"
proof -
  let ?s = "new_Snake 29 10 kRight"
  let ?s' = "?s\<lparr>body := body ?s @ [new_Block 30 10 snakeBodyColor]\<rparr>"
  have n: "next_pos ?s = Inr (30, 10)"
    by (simp add: new_Snake_def next_pos_def new_Block_def kDx_def kDy_def)
  have n': "next_pos ?s' = next_pos ?s \<and> drop 4 (body ?s') = drop 4 (body ?s)"
    by (simp add: new_Snake_def next_pos_def new_Block_def)
  have f: "checkMove ?s = Inr False"
    using checkMove_false_iff [OF n] by (simp add: rows_def)
  moreover have "checkMove ?s' = checkMove ?s"
    using checkMove_false_iff [OF n] n' by blast
  ultimately show ?thesis using n by simp
qed

subsection \<open>Reversal guard\<close>

text \<open>
  C3: requesting a direction on the axis of the last-committed direction leaves the snake
  as it is; this holds for the opposite of the last-committed direction and for that
  direction itself. Right after \<open>extend\<close> has committed the current direction \<open>d\<close>,
  requesting the opposite of \<open>d\<close> changes nothing and the direction is still \<open>d\<close>.
\<close>

theorem updateDirection_same_axis:
  "(drop_bit 1 (dirCode r) = drop_bit 1 (dirCode (lastMove s)) \<longrightarrow> updateDirection r s = s)
   \<and> updateDirection (verse (lastMove s)) s = s
   \<and> updateDirection (lastMove s) s = s
   \<and> (\<forall>s'. extend s = Inr s' \<longrightarrow>
        direction s' = direction s \<and> updateDirection (verse (direction s)) s' = s')"
proof -
  have noop: "updateDirection r' t = t"
    if "drop_bit 1 (dirCode r') = drop_bit 1 (dirCode (lastMove t))" for r' t
    using that by (simp add: updateDirection_def)
  have ext: "direction s' = direction s \<and> lastMove s' = direction s" if "extend s = Inr s'" for s'
    using that by (auto simp: extend_def split: sum.splits list.splits prod.splits)
  have "updateDirection (verse (direction s)) s' = s'" if "extend s = Inr s'" for s'
    using ext [OF that] by (intro noop) (simp only: axis_verse)
  with ext noop [OF axis_verse] noop [OF refl] show ?thesis
    by (intro conjI allI impI) (blast intro: noop)+
qed

theorem updateDirection_same_axis_witness:
  "updateDirection kLeft (new_Snake 10 10 kRight) = new_Snake 10 10 kRight \<and>
   updateDirection kLeft
     (new_Snake 10 10 kRight
        \<lparr>body := [new_Block 11 10 snakeHeadColor, new_Block 10 10 snakeBodyColor,
                  new_Block 9 10 snakeBodyColor]\<rparr>) =
     new_Snake 10 10 kRight
        \<lparr>body := [new_Block 11 10 snakeHeadColor, new_Block 10 10 snakeBodyColor,
                  new_Block 9 10 snakeBodyColor]\<rparr>"
proof -
  let ?s = "new_Snake 10 10 kRight"
  let ?s' = "?s\<lparr>body := [new_Block 11 10 snakeHeadColor, new_Block 10 10 snakeBodyColor,
                  new_Block 9 10 snakeBodyColor]\<rparr>"
  have a: "drop_bit 1 (dirCode kLeft) = drop_bit 1 (dirCode (lastMove ?s))"
    by (simp add: new_Snake_def drop_bit_eq_div)
  have e: "extend ?s = Inr ?s'"
    by (simp add: extend_def next_pos_def new_Snake_def new_Block_def kDx_def kDy_def verse_simps)
  have v: "verse (direction ?s) = kLeft"
    by (simp add: new_Snake_def verse_simps)
  from updateDirection_same_axis [of kLeft ?s] a e v show ?thesis
    by metis
qed

subsection \<open>Growing and moving\<close>

text \<open>
  C8: on a snake with at least one segment, \<open>extend\<close> returns; the body is longer by
  exactly one, the new head is a block at the next cell with the head colour, the previous
  head is the second block now and has the body colour (so the two colours differ), the
  other segments are as they were, and the current direction has become the last-committed
  one.
\<close>

theorem extend_grows:
  assumes "body s \<noteq> []"
  shows "\<exists>s' x y. extend s = Inr s' \<and> next_pos s = Inr (x, y)
           \<and> length (body s') = length (body s) + 1
           \<and> body s' ! 0 = new_Block x y snakeHeadColor
           \<and> body s' ! 1 = (body s ! 0)\<lparr>color := snakeBodyColor\<rparr>
           \<and> drop 2 (body s') = drop 1 (body s)
           \<and> color (body s' ! 0) \<noteq> color (body s' ! 1)
           \<and> lastMove s' = direction s
           \<and> direction s' = direction s"
proof -
  from assms obtain b bs where b: "body s = b # bs"
    by (cases "body s") auto
  show ?thesis
    using head_body_colors_differ
    by (simp add: extend_Cons [OF b] next_pos_Cons [OF b] b new_Block_def)
qed

theorem extend_grows_witness:
  "extend (new_Snake 10 10 kRight) =
     Inr \<lparr>body = [new_Block 11 10 snakeHeadColor, new_Block 10 10 snakeBodyColor,
                  new_Block 9 10 snakeBodyColor],
          direction = kRight, lastMove = kRight, listeners = 0\<rparr>"
proof -
  have "body (new_Snake 10 10 kRight) \<noteq> []"
    by (simp add: new_Snake_def)
  from extend_grows [OF this] obtain s' x y where
    "extend (new_Snake 10 10 kRight) = Inr s'" "next_pos (new_Snake 10 10 kRight) = Inr (x, y)"
    by blast
  then show ?thesis
    by (simp add: extend_def next_pos_def new_Snake_def new_Block_def kDx_def kDy_def verse_simps)
qed

text \<open>
  C7: on a snake with at least one segment, \<open>move\<close> is \<open>extend\<close> followed by dropping the
  last segment: the body keeps its length, its head is at the next cell, and the cells it
  occupies are the old ones with the next cell added and the old tail cell removed.
\<close>

theorem move_is_extend_then_pop:
  assumes "body s \<noteq> []"
  shows "\<exists>s1 s2 x y. extend s = Inr s1 \<and> move s = Inr s2 \<and> next_pos s = Inr (x, y)
           \<and> s2 = s1\<lparr>body := butlast (body s1)\<rparr>
           \<and> length (body s2) = length (body s)
           \<and> cells (body s2) + {#cell (last (body s))#} = cells (body s) + {#(x, y)#}
           \<and> cell (body s2 ! 0) = (x, y)"
proof -
  from assms obtain b bs where b: "body s = b # bs"
    by (cases "body s") auto
  have c: "cells (butlast (b\<lparr>color := snakeBodyColor\<rparr> # bs)) + {#cell (last (b # bs))#}
           = cells (b # bs)"
  proof (cases bs rule: rev_cases)
    case Nil
    then show ?thesis by (simp add: cells_def cell_def)
  next
    case (snoc ys z)
    then show ?thesis by (simp add: cells_def cell_def butlast_append)
  qed
  have "cells (body s) + {#(x, y)#} =
          cells (new_Block x y snakeHeadColor # butlast (b\<lparr>color := snakeBodyColor\<rparr> # bs))
            + {#cell (last (body s))#}" for x y
    using c by (simp add: b cells_def cell_def new_Block_def)
  then show ?thesis
    by (simp add: extend_Cons [OF b] move_Cons [OF b] next_pos_Cons [OF b] b new_Block_def cell_def)
qed

theorem move_is_extend_then_pop_witness:
  "move (new_Snake 10 10 kRight) =
     Inr \<lparr>body = [new_Block 11 10 snakeHeadColor, new_Block 10 10 snakeBodyColor],
          direction = kRight, lastMove = kRight, listeners = 0\<rparr>"
proof -
  have "body (new_Snake 10 10 kRight) \<noteq> []"
    by (simp add: new_Snake_def)
  from move_is_extend_then_pop [OF this] obtain s1 s2 where
    "extend (new_Snake 10 10 kRight) = Inr s1" "move (new_Snake 10 10 kRight) = Inr s2"
    "s2 = s1\<lparr>body := butlast (body s1)\<rparr>"
    by blast
  then show ?thesis
    by (auto simp: move_def extend_def next_pos_def new_Snake_def new_Block_def kDx_def kDy_def verse_simps)
qed

section \<open>Food placement\<close>

text \<open>
  C6: whenever \<open>updateFood\<close> returns, the new food cell is not the cell of any snake
  segment and is not the cell of the food it replaces; it lies in the grid, given that
  every sample is a double in \<open>[0, 1)\<close>, which is what \<^verbatim>\<open>Math.random()\<close> promises: the
  largest such double is \<open>1 - 2^-53\<close>, and its product with 30 still rounds below 30. The
  snake is not touched and the food keeps its colour. Nothing is said of the runs where
  the loop never ends.
\<close>

theorem updateFood_placement:
  assumes "updateFood g = Some g'"
  shows "cell (food g') \<notin> cell ` set (body (snake g))
       \<and> cell (food g') \<noteq> cell (food g)
       \<and> ((\<forall>n. isDouble (rnd g n) \<and> 0 \<le> rnd g n \<and> rnd g n < 1) \<longrightarrow>
            0 \<le> px (food g') \<and> px (food g') < rows \<and> 0 \<le> py (food g') \<and> py (food g') < cols)
       \<and> snake g' = snake g \<and> color (food g') = color (food g)"
proof -
  from assms obtain x y j where
    l: "updateFood_loop g (rndPos g) = Some (x, y, j)" and
    g': "g' = g\<lparr>food := (food g)\<lparr>px := x, py := y\<rparr>, rndPos := j\<rparr>"
    by (auto simp: updateFood_def split: option.splits)
  from updateFood_loop_Some [OF l] obtain k where
    free: "\<not> blockExist g x y" and
    x: "x = random (rnd g k) 0 (rows - 1)" and y: "y = random (rnd g (k + 1)) 0 (cols - 1)"
    by blast
  have c: "cell (food g') = (x, y)"
    by (simp add: g' cell_def)
  have "0 \<le> x \<and> x < rows \<and> 0 \<le> y \<and> y < cols"
    if "\<forall>n. isDouble (rnd g n) \<and> 0 \<le> rnd g n \<and> rnd g n < 1"
    using random_in_grid [of "rnd g k"] random_in_grid [of "rnd g (k + 1)"] that
    by (simp add: x y rows_def cols_def)
  with free c show ?thesis
    by (auto simp: blockExist_iff g')
qed

text \<open>
  An instance with a retry: from the initial state the first pair of samples gives the
  cell of the old food and is rejected, the second pair gives \<open>(3, 7)\<close>.
\<close>

theorem updateFood_placement_witness:
  "updateFood (main sampleSeq) = Some ((main sampleSeq)\<lparr>food := new_Food 3 7, rndPos := 4\<rparr>)
   \<and> random (sampleSeq 0) 0 (rows - 1) = 15 \<and> random (sampleSeq 1) 0 (cols - 1) = 15
   \<and> cell (food (main sampleSeq)) = (15, 15)
   \<and> cell (new_Food 3 7) \<notin> cell ` set (body (snake (main sampleSeq)))
   \<and> cell (new_Food 3 7) \<noteq> cell (food (main sampleSeq))
   \<and> 0 \<le> px (new_Food 3 7) \<and> px (new_Food 3 7) < rows
   \<and> 0 \<le> py (new_Food 3 7) \<and> py (new_Food 3 7) < cols"
proof -
  have r: "\<forall>n. isDouble (rnd (main sampleSeq) n) \<and> 0 \<le> rnd (main sampleSeq) n
              \<and> rnd (main sampleSeq) n < 1"
    using sampleSeq_unit by (simp add: main_def updateScores_def drawFrame_def emit_def)
  have s: "random (sampleSeq 0) 0 (rows - 1) = 15" "random (sampleSeq 1) 0 (cols - 1) = 15"
    "cell (food (main sampleSeq)) = (15, 15)"
    by (simp_all add: random_def sampleSeq_def rows_def cols_def main_def updateScores_def
        drawFrame_def emit_def new_Food_def)
  from updateFood_placement [OF updateFood_main] r updateFood_main s show ?thesis
    by simp
qed

section \<open>Invariants of the game\<close>

text \<open>
  C1: in every state the game can reach, the food is on no cell of the snake. In
  particular a tick that eats leaves it so: the food is moved first, to a cell other than
  the one it was on, and that old cell is where \<open>extend\<close> then puts the new head.
\<close>

theorem food_never_on_snake:
  "(reachable g \<longrightarrow> foodFree g)
   \<and> (\<forall>f g'. eatFood (snake g) (food g) = Inr True \<and> tick g = Returns (f, g')
         \<longrightarrow> foodFree g' \<and> cell (food g') \<noteq> cell (body (snake g') ! 0)
             \<and> cell (body (snake g') ! 0) = cell (food g))"
proof (intro conjI allI impI)
  assume "reachable g"
  then show "foodFree g"
    using sound_reachable by (simp add: sound_def)
next
  fix f g'
  assume a: "eatFood (snake g) (food g) = Inr True \<and> tick g = Returns (f, g')"
  then obtain x y b bs where
    s: "body (snake g) = b # bs"
    "body (snake g') = new_Block (px (food g)) (py (food g)) snakeHeadColor
                         # b\<lparr>color := snakeBodyColor\<rparr> # bs"
    "food g' = (food g)\<lparr>px := x, py := y\<rparr>"
    "(x, y) \<noteq> cell (food g)" "(x, y) \<notin> cell ` set (body (snake g))"
    by (metis tick_eat_shape)
  have c: "cell (food g') = (x, y)"
    by (simp add: s(3) cell_def)
  show "foodFree g'"
    using s(1,4,5) by (simp add: foodFree_def c s(2)) (simp add: cell_def)
  show "cell (food g') \<noteq> cell (body (snake g') ! 0)"
    using s(4) by (simp add: c s(2)) (simp add: cell_def)
  show "cell (body (snake g') ! 0) = cell (food g)"
    by (simp add: s(2)) (simp add: cell_def)
qed


theorem food_never_on_snake_witness:
  "reachable demoGame \<and> foodFree demoGame
   \<and> eatFood (snake aboutToEat) (food aboutToEat) = Inr True
   \<and> tick aboutToEat = Returns (Continue, justAte)
   \<and> foodFree justAte \<and> cell (food justAte) \<noteq> cell (body (snake justAte) ! 0)"
  using food_never_on_snake [of demoGame] food_never_on_snake [of aboutToEat]
    reachable_demoGame tick_aboutToEat eatFood_aboutToEat
  by blast

text \<open>
  C10: consecutive segments of the body are adjacent: at every index \<open>i\<close>, segments \<open>i\<close>
  and \<open>i + 1\<close> differ by exactly one unit step in one coordinate. This holds of a newly
  constructed snake, \<open>extend\<close> and \<open>move\<close> preserve it, and so it holds of every snake
  the class can produce and in every state the game can reach.
\<close>

theorem body_linked:
  "linked (body (new_Snake x y d))
   \<and> (\<forall>s'. linked (body s) \<and> extend s = Inr s' \<longrightarrow> linked (body s'))
   \<and> (\<forall>s'. linked (body s) \<and> move s = Inr s' \<longrightarrow> linked (body s'))
   \<and> (snakeState t \<longrightarrow> linked (body t))
   \<and> (reachable g \<longrightarrow> linked (body (snake g)))"
proof (intro conjI allI impI)
  show "linked (body (new_Snake x y d))"
    by (rule linked_new_Snake)
  show "linked (body s')" if "linked (body s) \<and> extend s = Inr s'" for s'
    using that linked_extend by blast
  show "linked (body s')" if "linked (body s) \<and> move s = Inr s'" for s'
    using that linked_move by blast
  show "linked (body t)" if "snakeState t"
    using snakeState_body [OF that] by simp
  show "linked (body (snake g))" if "reachable g"
    using sound_reachable [OF that] by (simp add: sound_def)
qed

theorem body_linked_witness:
  "linked (body (new_Snake 10 10 kRight))
   \<and> extend (new_Snake 10 10 kRight) =
        Inr (new_Snake 10 10 kRight
              \<lparr>body := [new_Block 11 10 snakeHeadColor, new_Block 10 10 snakeBodyColor,
                        new_Block 9 10 snakeBodyColor]\<rparr>)
   \<and> linked [new_Block 11 10 snakeHeadColor, new_Block 10 10 snakeBodyColor,
              new_Block 9 10 snakeBodyColor]
   \<and> move (new_Snake 10 10 kRight) =
        Inr (new_Snake 10 10 kRight
              \<lparr>body := [new_Block 11 10 snakeHeadColor, new_Block 10 10 snakeBodyColor]\<rparr>)
   \<and> linked [new_Block 11 10 snakeHeadColor, new_Block 10 10 snakeBodyColor]
   \<and> snakeState (new_Snake 10 10 kRight
              \<lparr>body := [new_Block 11 10 snakeHeadColor, new_Block 10 10 snakeBodyColor]\<rparr>)
   \<and> reachable demoGame
   \<and> linked [new_Block 15 15 snakeHeadColor, new_Block 15 14 snakeBodyColor,
              new_Block 15 13 snakeBodyColor]"
proof -
  let ?s = "new_Snake 10 10 kRight"
  let ?e = "?s\<lparr>body := [new_Block 11 10 snakeHeadColor, new_Block 10 10 snakeBodyColor,
                        new_Block 9 10 snakeBodyColor]\<rparr>"
  let ?m = "?s\<lparr>body := [new_Block 11 10 snakeHeadColor, new_Block 10 10 snakeBodyColor]\<rparr>"
  note w = body_linked [of 10 10 kRight ?s ?m demoGame]
  have e: "extend ?s = Inr ?e"
    by (simp add: extend_def next_pos_def new_Snake_def new_Block_def kDx_def kDy_def verse_simps)
  have m: "move ?s = Inr ?m"
    by (simp add: move_def extend_def next_pos_def new_Snake_def new_Block_def kDx_def kDy_def verse_simps)
  from w have l0: "linked (body ?s)" by blast
  with w e have "linked (body ?e)" by blast
  moreover from w l0 m have "linked (body ?m)" by blast
  moreover have t: "snakeState ?m"
    using snake_move [OF snake_new m] .
  with w have "linked (body ?m)" by blast
  moreover from w reachable_demoGame have "linked (body (snake demoGame))" by blast
  ultimately show ?thesis
    using l0 e m t reachable_demoGame by (simp add: demoGame_def)
qed

text \<open>
  C4: the highest score never decreases, whatever sequence of clicks, keys and frames is
  run. A tick that eats adds one to the score and sets the highest score to the maximum
  of the new score and the old highest score. \<open>resetGame\<close> sets the score to 0 and keeps
  the highest score, and so do the start button (which acts when the game has ended) and
  the restart button (which acts when the game runs); the end button keeps it too.
\<close>

theorem highestScore_monotone:
  "(\<forall>g'. run es g = Returns g' \<longrightarrow> highestScore g \<le> highestScore g')
   \<and> (\<forall>f g'. eatFood (snake g) (food g) = Inr True \<and> tick g = Returns (f, g')
         \<longrightarrow> score g' = score g + 1 \<and> highestScore g' = max (score g') (highestScore g))
   \<and> score (resetGame g) = 0 \<and> highestScore (resetGame g) = highestScore g
   \<and> highestScore (onStart g) = highestScore g \<and> (gameStatus g = End \<longrightarrow> score (onStart g) = 0)
   \<and> highestScore (onRestart g) = highestScore g \<and> (gameStatus g = Run \<longrightarrow> score (onRestart g) = 0)
   \<and> highestScore (onEnd g) = highestScore g"
proof (intro conjI allI impI)
  show "highestScore g \<le> highestScore g'" if "run es g = Returns g'" for g'
    using that by (rule highestScore_run)
  show "score g' = score g + 1" "highestScore g' = max (score g') (highestScore g)"
    if "eatFood (snake g) (food g) = Inr True \<and> tick g = Returns (f, g')" for f g'
    using tick_eat_scores [of g f g'] that by simp_all
  show "score (onStart g) = 0" if "gameStatus g = End"
    using that by (simp add: onStart_def Let_def page_defs)
  show "score (onRestart g) = 0" if "gameStatus g = Run"
    using that by (simp add: onRestart_def Let_def)
qed simp_all

theorem highestScore_monotone_witness:
  "run demoEvents (main sampleSeq) = Returns demoGame
   \<and> highestScore (main sampleSeq) = 0 \<and> highestScore demoGame = 1
   \<and> tick aboutToEat = Returns (Continue, justAte)
   \<and> score aboutToEat = 0 \<and> score justAte = 1 \<and> highestScore justAte = 1
   \<and> score (onStart (main sampleSeq)) = 0
   \<and> score (onRestart demoGame) = 0 \<and> highestScore (onRestart demoGame) = 1"
proof -
  have "highestScore (main sampleSeq) \<le> highestScore demoGame"
    using highestScore_monotone [of demoEvents "main sampleSeq"] run_demo by blast
  moreover have "score justAte = score aboutToEat + 1
      \<and> highestScore justAte = max (score justAte) (highestScore aboutToEat)"
    using highestScore_monotone [of demoEvents aboutToEat] eatFood_aboutToEat tick_aboutToEat
    by blast
  moreover have "gameStatus (main sampleSeq) = End" "gameStatus demoGame = Run"
    by (simp_all add: main_def page_defs demoGame_def)
  then have "score (onStart (main sampleSeq)) = 0" "score (onRestart demoGame) = 0"
    using highestScore_monotone [of demoEvents "main sampleSeq"]
      highestScore_monotone [of demoEvents demoGame] by blast+
  moreover have "highestScore (onRestart demoGame) = highestScore demoGame"
    using highestScore_monotone [of demoEvents demoGame] by blast
  moreover have "highestScore (main sampleSeq) = 0" "highestScore demoGame = 1"
    "score aboutToEat = 0" "highestScore aboutToEat = 0"
    by (simp_all add: main_def page_defs demoGame_def aboutToEat_def)
  ultimately show ?thesis
    using run_demo tick_aboutToEat by simp
qed

section \<open>The frame callback\<close>

text \<open>
  C5: in a frame of a running game, let \<open>k\<close> ticks have been processed without a
  \<^verbatim>\<open>return\<close>, with at least one more tick due, and let the snake then neither reach the
  food nor be able to move. Then the callback returns with the status set to \<open>End\<close>; of
  the effects of this frame the alert is the last and the only alert, and none is a frame
  request; the ticks still due are not processed (the state is that of tick \<open>k\<close> but for
  the status and the alert); and any later frame callback returns this state unchanged.
\<close>

theorem loop_game_over:
  assumes "gameStatus g = Run"
    and "ticks_loop k (rebase time g) = Returns (Continue, gk)"
    and "k < rounds (elapsedTicks time (prevTime (rebase time g)))"
    and "eatFood (snake gk) (food gk) = Inr False"
    and "checkMove (snake gk) = Inr False"
  shows "\<exists>es. effects gk = effects g @ es \<and> Alert \<notin> set es \<and> RequestFrame \<notin> set es
           \<and> loop time g = Returns (gk\<lparr>gameStatus := End, effects := effects g @ es @ [Alert]\<rparr>)
           \<and> (\<forall>t. loop t (gk\<lparr>gameStatus := End, effects := effects g @ es @ [Alert]\<rparr>)
                    = Returns (gk\<lparr>gameStatus := End, effects := effects g @ es @ [Alert]\<rparr>))"
proof -
  let ?n = "rounds (elapsedTicks time (prevTime (rebase time g)))"
  have "effects (rebase time g) = effects g"
    by (simp add: rebase_def)
  with effects_ticks_loop_Continue [OF assms(2)] obtain es where
    es: "effects gk = effects g @ es" "Alert \<notin> set es" "RequestFrame \<notin> set es"
    by auto
  let ?final = "gk\<lparr>gameStatus := End, effects := effects g @ es @ [Alert]\<rparr>"
  have fin: "alert (gk\<lparr>gameStatus := End\<rparr>) = ?final"
    by (simp add: alert_def emit_def es(1))
  from less_imp_Suc_add [OF assms(3)] obtain m where "?n = Suc (k + m)" ..
  then have n: "?n = k + Suc m"
    by (simp only: add_Suc_right)
  have "tick gk = Returns (Return, ?final)"
    using tick_over [OF assms(4,5)] fin by simp
  then have last: "ticks_loop (Suc m) gk = Returns (Return, ?final)"
    by simp
  have "ticks_loop (k + Suc m) (rebase time g) = ticks_loop (Suc m) gk"
    by (subst ticks_loop_add) (simp only: assms(2) outcome.case prod.case flow.case)
  with last n have "ticks_loop ?n (rebase time g) = Returns (Return, ?final)"
    by (simp only:)
  then have "loop time g = Returns ?final"
    using assms(1) by (simp add: loop_def Let_def)
  moreover have "loop t ?final = Returns ?final" for t
    by (simp add: loop_ended)
  ultimately have "effects gk = effects g @ es \<and> Alert \<notin> set es \<and> RequestFrame \<notin> set es
           \<and> loop time g = Returns ?final \<and> (\<forall>t. loop t ?final = Returns ?final)"
    using es by (intro conjI allI)
  then show ?thesis
    by (rule exI)
qed

theorem loop_game_over_witness:
  "gameStatus nearWall = Run
   \<and> ticks_loop 1 (rebase 5250 nearWall) = Returns (Continue, atWall)
   \<and> rounds (elapsedTicks 5250 (prevTime (rebase 5250 nearWall))) = 3
   \<and> eatFood (snake atWall) (food atWall) = Inr False
   \<and> checkMove (snake atWall) = Inr False
   \<and> loop 5250 nearWall = Returns (atWall\<lparr>gameStatus := End, effects := [DrawFrame, Alert]\<rparr>)
   \<and> loop 5500 (atWall\<lparr>gameStatus := End, effects := [DrawFrame, Alert]\<rparr>)
        = Returns (atWall\<lparr>gameStatus := End, effects := [DrawFrame, Alert]\<rparr>)"
proof -
  have a: "gameStatus nearWall = Run"
    by (simp add: nearWall_def)
  have r: "rounds (elapsedTicks 5250 (prevTime (rebase 5250 nearWall))) = 3"
    by (simp add: nearWall_def rebase_def elapsedTicks_def rounds_def)
  then have k: "1 < rounds (elapsedTicks 5250 (prevTime (rebase 5250 nearWall)))"
    by simp
  have e: "eatFood (snake atWall) (food atWall) = Inr False"
    by (simp add: atWall_def run_defs)
  have c: "checkMove (snake atWall) = Inr False"
    by (simp add: atWall_def run_defs)
  from loop_game_over [OF a tick_nearWall k e c] obtain es where
    es: "effects atWall = effects nearWall @ es"
    and l: "loop 5250 nearWall = Returns (atWall\<lparr>gameStatus := End, effects := effects nearWall @ es @ [Alert]\<rparr>)"
    and q: "\<forall>t. loop t (atWall\<lparr>gameStatus := End, effects := effects nearWall @ es @ [Alert]\<rparr>)
                    = Returns (atWall\<lparr>gameStatus := End, effects := effects nearWall @ es @ [Alert]\<rparr>)"
    by blast
  from es have "es = [DrawFrame]"
    by (simp add: atWall_def nearWall_def)
  with l q a tick_nearWall r e c show ?thesis
    by (simp add: nearWall_def)
qed


text \<open>
  C9, as stated: a frame of a running game with \<open>floor((time - prevTime) / 250) = 0\<close>
  leaves \<open>prevTime\<close> unchanged. This fails on the first frame after a resume: \<open>start\<close> is
  undefined then, and the callback sets \<open>start\<close> and \<open>prevTime\<close> to the current time.
\<close>

theorem idle_frame_counterexample:
  "run resumeEvents (main sampleSeq) = Returns resumed
   \<and> gameStatus resumed = Run
   \<and> prevTime resumed = Some 1000
   \<and> elapsedTicks 1100 (prevTime resumed) = Some 0
   \<and> loop 1100 resumed =
        Returns (requestAnimationFrame (resumed\<lparr>start := Some 1100, prevTime := Some 1100\<rparr>))
   \<and> prevTime (requestAnimationFrame (resumed\<lparr>start := Some 1100, prevTime := Some 1100\<rparr>))
        = Some 1100
   \<and> \<not> idleFrame 1100 resumed"
proof -
  have "gameStatus resumed = Run" "prevTime resumed = Some 1000"
    "elapsedTicks 1100 (prevTime resumed) = Some 0"
    by (simp_all add: resumed_def elapsedTicks_def)
  then show ?thesis
    using run_resumed loop_resumed
    by (simp add: idleFrame_def page_defs)
qed

text \<open>
  C9, amended: in a running game whose \<open>start\<close> is defined, a frame with
  \<open>floor((time - prevTime) / 250) = 0\<close> changes nothing and only requests the next frame.
  In a running game whose \<open>start\<close> is undefined (the first frame after start, resume or
  restart) no tick is due either; the frame sets \<open>start\<close> and \<open>prevTime\<close> to the current
  time, changes nothing else and requests the next frame.
\<close>

theorem idle_frame:
  assumes "gameStatus g = Run"
  shows "(start g \<noteq> None \<and> elapsedTicks time (prevTime g) = Some 0
            \<longrightarrow> loop time g = Returns (requestAnimationFrame g))
       \<and> (start g = None
            \<longrightarrow> elapsedTicks time (prevTime (rebase time g)) = Some 0
              \<and> loop time g =
                  Returns (requestAnimationFrame (g\<lparr>start := Some time, prevTime := Some time\<rparr>)))"
  using assms
  by (simp add: loop_def rebase_def elapsedTicks_def rounds_def atLeastOne_def)

theorem idle_frame_witness:
  "run [ClickStart, Frame 1000] (main sampleSeq) = Returns firstFrameDone
   \<and> elapsedTicks 1100 (prevTime firstFrameDone) = Some 0
   \<and> loop 1100 firstFrameDone = Returns (requestAnimationFrame firstFrameDone)
   \<and> start resumed = None
   \<and> loop 1100 resumed =
        Returns (requestAnimationFrame (resumed\<lparr>start := Some 1100, prevTime := Some 1100\<rparr>))"
proof -
  have a: "gameStatus firstFrameDone = Run" "start firstFrameDone \<noteq> None"
    "elapsedTicks 1100 (prevTime firstFrameDone) = Some 0"
    by (simp_all add: firstFrameDone_def elapsedTicks_def)
  have b: "gameStatus resumed = Run" "start resumed = None"
    by (simp_all add: resumed_def)
  from idle_frame [OF a(1), of 1100] a(2,3)
  have "loop 1100 firstFrameDone = Returns (requestAnimationFrame firstFrameDone)"
    by blast
  moreover from idle_frame [OF b(1), of 1100] b(2)
  have "loop 1100 resumed =
        Returns (requestAnimationFrame (resumed\<lparr>start := Some 1100, prevTime := Some 1100\<rparr>))"
    by blast
  ultimately show ?thesis
    using run_firstFrameDone a(3) b(2) by simp
qed

end
